theory Spec2Isabelle
  imports
    Main
    "HOL-Library.AList"
    "HOL-Library.FSet"
    "HOL-Library.Multiset"
    "HOL-Library.Char_ord"
    "HOL-Library.List_Lexorder"
begin

section \<open>Graph entities (lib/graph.go, lib/util.go)\<close>

text \<open>
  Go strings are byte sequences and \<open>sort.Strings\<close> orders them bytewise, a proper prefix
  before its extensions. \<^typ>\<open>string\<close> with the order of \<open>Char_ord\<close> and \<open>List_Lexorder\<close>
  is that order.
\<close>

subsection \<open>Properties\<close>

text \<open>
  \<open>type Properties map[string]any\<close>. The values are left abstract (\<open>'v\<close>). A Go map variable
  may be \<open>nil\<close>: a field of this type is \<open>None\<close> for the nil map and \<open>Some m\<close> for an
  allocated map. Reading a nil map finds no key; assigning into it panics.
\<close>

type_synonym 'v Properties = "string \<rightharpoonup> 'v"

datatype error =
    MissingMatchProperty string string
  | NoRecognizedLabel "string fset"
  | InvalidNode error
  | InvalidStartNode error
  | InvalidEndNode error
  | EndpointLabelMismatch string string "string fset"
  | InvalidNodeSortKey string
  | InvalidRelSortKey string
  | UnknownMatchLabel string
  | UnknownStartLabel string
  | UnknownEndLabel string
  | NilMapAssignment
  | ReadFileError string
  | ConnectError string

definition prop_get :: "'v Properties option \<Rightarrow> string \<Rightarrow> 'v option" where
  \<comment> \<open>\<open>value, exists := props[key]\<close>\<close>
  "prop_get props key = (case props of None \<Rightarrow> None | Some m \<Rightarrow> m key)"

definition prop_set ::
  "'v Properties option \<Rightarrow> string \<Rightarrow> 'v \<Rightarrow> error + 'v Properties option" where
  \<comment> \<open>\<open>props[key] = value\<close>\<close>
  "prop_set props key val =
     (case props of None \<Rightarrow> Inl NilMapAssignment | Some m \<Rightarrow> Inr (Some (m(key \<mapsto> val))))"

subsection \<open>Sets (lib/util.go)\<close>

text \<open>
  \<open>Set[T]\<close> wraps a \<open>map[T]struct{}\<close>: a finite set. \<open>ToArray\<close> ranges over the map, whose
  iteration order Go leaves unspecified, so it is a relation: any duplicate-free
  enumeration of the members may come back.
\<close>

definition Add :: "'a fset \<Rightarrow> 'a \<Rightarrow> 'a fset" where
  "Add s item = finsert item s"

definition NewSet :: "'a list \<Rightarrow> 'a fset" where
  "NewSet items = fold (\<lambda>i set. Add set i) items {||}"

definition Contains :: "'a fset \<Rightarrow> 'a \<Rightarrow> bool" where
  "Contains s item = (item |\<in>| s)"

definition ToArray :: "'a fset \<Rightarrow> 'a list \<Rightarrow> bool" where
  "ToArray s array \<longleftrightarrow> distinct array \<and> fset_of_list array = s"

subsection \<open>Match key provider\<close>

text \<open>\<open>MatchKeys.keys\<close> is a \<open>map[string][]string\<close>; \<open>GetKeys\<close> returns the entry and whether
  it exists.\<close>

type_synonym MatchKeys = "string \<rightharpoonup> string list"

definition GetKeys :: "MatchKeys \<Rightarrow> string \<Rightarrow> string list option" where
  "GetKeys p label = p label"

definition NewMatchKeys :: MatchKeys where
  "NewMatchKeys =
     [''User'' \<mapsto> [''pubkey''], ''Relay'' \<mapsto> [''url''], ''Event'' \<mapsto> [''id''],
      ''Tag'' \<mapsto> [''name'', ''value'']]"

subsection \<open>Nodes\<close>

record 'v Node =
  Labels :: "string fset"
  Props :: "'v Properties option"

definition NewNode :: "string \<Rightarrow> 'v Properties option \<Rightarrow> 'v Node" where
  "NewNode label props =
     (let props = (if props = None then Some Map.empty else props)
      in \<lparr>Labels = NewSet [label], Props = props\<rparr>)"

text \<open>
  The inner loop of \<open>MatchProps\<close>: copy the value of every match key into a fresh map and
  stop at the first key the node does not have (\<open>Inl key\<close>).
\<close>

fun match_values ::
  "'v Properties option \<Rightarrow> string list \<Rightarrow> 'v Properties \<Rightarrow> string + 'v Properties" where
  "match_values nprops [] props = Inr props"
| "match_values nprops (key # keys) props =
     (case prop_get nprops key of
        Some val \<Rightarrow> match_values nprops keys (props(key \<mapsto> val))
      | None \<Rightarrow> Inl key)"

text \<open>
  The outer loop over the sorted labels. The Go function returns the triple
  \<open>(label, props, err)\<close>; \<open>None\<close> is \<open>nil\<close> in the second and third component.
\<close>

fun match_labels ::
  "'v Node \<Rightarrow> MatchKeys \<Rightarrow> string list \<Rightarrow> string \<times> 'v Properties option \<times> error option" where
  "match_labels n matchProvider [] = ('''', None, Some (NoRecognizedLabel (Labels n)))"
| "match_labels n matchProvider (label # labels) =
     (case GetKeys matchProvider label of
        Some keys \<Rightarrow>
          (case match_values (Props n) keys Map.empty of
             Inl key \<Rightarrow> (label, None, Some (MissingMatchProperty key label))
           | Inr props \<Rightarrow> (label, Some props, None))
      | None \<Rightarrow> match_labels n matchProvider labels)"

text \<open>
  \<open>labels := n.Labels.ToArray(); sort.Strings(labels)\<close>: whatever enumeration \<open>ToArray\<close>
  returns, sorting it gives the ascending list of the label set (lemma \<open>ToArray_sort\<close>
  below), which is what \<open>sorted_list_of_fset\<close> computes.
\<close>

definition MatchProps ::
  "'v Node \<Rightarrow> MatchKeys \<Rightarrow> string \<times> 'v Properties option \<times> error option" where
  "MatchProps n matchProvider = match_labels n matchProvider (sorted_list_of_fset (Labels n))"

definition Serialize :: "'v Node \<Rightarrow> 'v Properties option" where
  "Serialize n = Props n"

subsection \<open>Relationships\<close>

text \<open>A relationship points to its two nodes; the model holds their values.\<close>

record 'v Relationship =
  Type :: string
  Start :: "'v Node"
  End :: "'v Node"
  RProps :: "'v Properties option"

definition NewRelationship ::
  "string \<Rightarrow> 'v Node \<Rightarrow> 'v Node \<Rightarrow> 'v Properties option \<Rightarrow> 'v Relationship" where
  "NewRelationship rtype start end' props =
     (let props = (if props = None then Some Map.empty else props)
      in \<lparr>Type = rtype, Start = start, End = end', RProps = props\<rparr>)"

subsection \<open>Schema constructors\<close>

definition validateNodeLabel :: "'v Node \<Rightarrow> string \<Rightarrow> string \<Rightarrow> error + unit" where
  "validateNodeLabel node role expectedLabel =
     (if \<not> Contains (Labels node) expectedLabel
      then Inl (EndpointLabelMismatch role expectedLabel (Labels node))
      else Inr ())"

definition NewRelationshipWithValidation ::
  "string \<Rightarrow> string \<Rightarrow> string \<Rightarrow> 'v Node \<Rightarrow> 'v Node \<Rightarrow> 'v Properties option
     \<Rightarrow> error + 'v Relationship" where
  "NewRelationshipWithValidation rtype startLabel endLabel start end' props =
     (case validateNodeLabel start ''start'' startLabel of
        Inl e \<Rightarrow> Inl e
      | Inr _ \<Rightarrow>
          (case validateNodeLabel end' ''end'' endLabel of
             Inl e \<Rightarrow> Inl e
           | Inr _ \<Rightarrow> Inr (NewRelationship rtype start end' props)))"

definition NewSignedRel ::
  "'v Node \<Rightarrow> 'v Node \<Rightarrow> 'v Properties option \<Rightarrow> error + 'v Relationship" where
  "NewSignedRel start end' props =
     NewRelationshipWithValidation ''SIGNED'' ''User'' ''Event'' start end' props"

definition NewTaggedRel ::
  "'v Node \<Rightarrow> 'v Node \<Rightarrow> 'v Properties option \<Rightarrow> error + 'v Relationship" where
  "NewTaggedRel start end' props =
     NewRelationshipWithValidation ''TAGGED'' ''Event'' ''Tag'' start end' props"

definition NewReferencesEventRel ::
  "'v Node \<Rightarrow> 'v Node \<Rightarrow> 'v Properties option \<Rightarrow> error + 'v Relationship" where
  "NewReferencesEventRel start end' props =
     NewRelationshipWithValidation ''REFERENCES'' ''Event'' ''Event'' start end' props"

definition NewReferencesUserRel ::
  "'v Node \<Rightarrow> 'v Node \<Rightarrow> 'v Properties option \<Rightarrow> error + 'v Relationship" where
  "NewReferencesUserRel start end' props =
     NewRelationshipWithValidation ''REFERENCES'' ''Event'' ''User'' start end' props"

subsection \<open>Simple subgraph\<close>

record 'v Subgraph =
  sg_nodes :: "'v Node list"
  sg_rels :: "'v Relationship list"

definition NewSubgraph :: "'v Subgraph" where
  "NewSubgraph = \<lparr>sg_nodes = [], sg_rels = []\<rparr>"

definition Subgraph_AddNode :: "'v Subgraph \<Rightarrow> 'v Node \<Rightarrow> 'v Subgraph" where
  "Subgraph_AddNode s node = s\<lparr>sg_nodes := sg_nodes s @ [node]\<rparr>"

definition Subgraph_AddRel :: "'v Subgraph \<Rightarrow> 'v Relationship \<Rightarrow> 'v Subgraph" where
  "Subgraph_AddRel s rel = s\<lparr>sg_rels := sg_rels s @ [rel]\<rparr>"

subsection \<open>Sort keys\<close>

text \<open>
  \<open>strings.Join\<close>, and \<open>strings.Split\<close> for a separator of one byte, which is how the
  program calls it (\<open>":"\<close>, \<open>","\<close> and the newline). \<open>Split\<close> never returns the empty list:
  a string without the separator comes back as the only part.
\<close>

fun Join :: "string list \<Rightarrow> string \<Rightarrow> string" where
  "Join [] sep = []"
| "Join [x] sep = x"
| "Join (x # y # ys) sep = x @ sep @ Join (y # ys) sep"

fun Split :: "string \<Rightarrow> char \<Rightarrow> string list" where
  "Split [] sep = [[]]"
| "Split (c # cs) sep =
     (if c = sep then [] # Split cs sep
      else (case Split cs sep of
              [] \<Rightarrow> [[c]]
            | part # parts \<Rightarrow> (c # part) # parts))"

definition createNodeSortKey :: "string \<Rightarrow> string list \<Rightarrow> string" where
  \<comment> \<open>\<open>fmt.Sprintf("%s:%s", matchLabel, strings.Join(sorted labels, ","))\<close>\<close>
  "createNodeSortKey matchLabel labels =
     (let labels = sort labels;
          serializedLabels = Join labels '',''
      in matchLabel @ '':'' @ serializedLabels)"

definition createRelSortKey :: "string \<Rightarrow> string \<Rightarrow> string \<Rightarrow> string" where
  "createRelSortKey rtype startLabel endLabel = Join [rtype, startLabel, endLabel] '',''"

definition DeserializeNodeKey :: "string \<Rightarrow> error + string \<times> string list" where
  "DeserializeNodeKey sortKey =
     (let parts = Split sortKey CHR '':''
      in if length parts \<noteq> 2 then Inl (InvalidNodeSortKey sortKey)
         else (let matchLabel = parts ! 0; serializedLabels = parts ! 1;
                   labels = Split serializedLabels CHR '',''
               in Inr (matchLabel, labels)))"

definition DeserializeRelKey :: "string \<Rightarrow> error + string \<times> string \<times> string" where
  "DeserializeRelKey sortKey =
     (let parts = Split sortKey CHR '',''
      in if length parts \<noteq> 3 then Inl (InvalidRelSortKey sortKey)
         else Inr (parts ! 0, parts ! 1, parts ! 2))"

subsection \<open>Structured subgraph\<close>

text \<open>
  The two Go maps from sort key to bucket are association lists updated with
  \<open>AList.update\<close>, which replaces the entry of a key that is present and appends a new
  one otherwise, so a key never occurs twice. Go ranges over a map in an unspecified
  order; the list order is one such order, and the properties proved below (a sum, a
  multiset union) do not depend on it.
\<close>

record 'v StructuredSubgraph =
  nodes :: "(string \<times> 'v Node list) list"
  rels :: "(string \<times> 'v Relationship list) list"
  matchProvider :: MatchKeys

definition NewStructuredSubgraph :: "MatchKeys \<Rightarrow> 'v StructuredSubgraph" where
  "NewStructuredSubgraph mp = \<lparr>nodes = [], rels = [], matchProvider = mp\<rparr>"

definition bucket :: "(string \<times> 'a list) list \<Rightarrow> string \<Rightarrow> 'a list" where
  \<comment> \<open>\<open>m[key]\<close> on a map of slices: the nil (empty) slice for a missing key\<close>
  "bucket m key = (case map_of m key of None \<Rightarrow> [] | Some xs \<Rightarrow> xs)"

definition GetNodes :: "'v StructuredSubgraph \<Rightarrow> string \<Rightarrow> 'v Node list" where
  "GetNodes s nodeKey = bucket (nodes s) nodeKey"

definition GetRels :: "'v StructuredSubgraph \<Rightarrow> string \<Rightarrow> 'v Relationship list" where
  "GetRels s relKey = bucket (rels s) relKey"

definition AddNode :: "'v StructuredSubgraph \<Rightarrow> 'v Node \<Rightarrow> error + 'v StructuredSubgraph" where
  "AddNode s node =
     (case MatchProps node (matchProvider s) of
        (matchLabel, _, Some err) \<Rightarrow> Inl (InvalidNode err)
      | (matchLabel, _, None) \<Rightarrow>
          (let sortKey = createNodeSortKey matchLabel (sorted_list_of_fset (Labels node));
               nodes1 = (if map_of (nodes s) sortKey = None
                         then AList.update sortKey [] (nodes s) else nodes s)
           in Inr (s\<lparr>nodes := AList.update sortKey (bucket nodes1 sortKey @ [node]) nodes1\<rparr>)))"

definition AddRel ::
  "'v StructuredSubgraph \<Rightarrow> 'v Relationship \<Rightarrow> error + 'v StructuredSubgraph" where
  "AddRel s rel =
     (case MatchProps (Start rel) (matchProvider s) of
        (startLabel, _, Some err) \<Rightarrow> Inl (InvalidStartNode err)
      | (startLabel, _, None) \<Rightarrow>
          (case MatchProps (End rel) (matchProvider s) of
             (endLabel, _, Some err) \<Rightarrow> Inl (InvalidEndNode err)
           | (endLabel, _, None) \<Rightarrow>
               (let sortKey = createRelSortKey (Type rel) startLabel endLabel;
                    rels1 = (if map_of (rels s) sortKey = None
                             then AList.update sortKey [] (rels s) else rels s)
                in Inr (s\<lparr>rels := AList.update sortKey (bucket rels1 sortKey @ [rel]) rels1\<rparr>))))"

definition NodeCount :: "'v StructuredSubgraph \<Rightarrow> nat" where
  "NodeCount s = fold (\<lambda>l count. count + length (bucket (nodes s) l)) (map fst (nodes s)) 0"

definition RelCount :: "'v StructuredSubgraph \<Rightarrow> nat" where
  "RelCount s = fold (\<lambda>t count. count + length (bucket (rels s) t)) (map fst (rels s)) 0"

definition NodeKeys :: "'v StructuredSubgraph \<Rightarrow> string list" where
  "NodeKeys s = map fst (nodes s)"

definition RelKeys :: "'v StructuredSubgraph \<Rightarrow> string list" where
  "RelKeys s = map fst (rels s)"

text \<open>A sequence of \<open>AddNode\<close> (\<open>AddRel\<close>) calls; a panic ends it.\<close>

fun AddNodes :: "'v StructuredSubgraph \<Rightarrow> 'v Node list \<Rightarrow> error + 'v StructuredSubgraph" where
  "AddNodes s [] = Inr s"
| "AddNodes s (node # rest) =
     (case AddNode s node of Inl e \<Rightarrow> Inl e | Inr s' \<Rightarrow> AddNodes s' rest)"

fun AddRels ::
  "'v StructuredSubgraph \<Rightarrow> 'v Relationship list \<Rightarrow> error + 'v StructuredSubgraph" where
  "AddRels s [] = Inr s"
| "AddRels s (rel # rest) =
     (case AddRel s rel of Inl e \<Rightarrow> Inl e | Inr s' \<Rightarrow> AddRels s' rest)"

subsection \<open>Schema node constructors\<close>

text \<open>The values the schema constructors store under \<open>any\<close>: strings, string slices,
  integers.\<close>

datatype val = Str string | Strs "string list" | Num int

definition NewUserNode :: "string \<Rightarrow> val Node" where
  "NewUserNode pubkey = NewNode ''User'' (Some [''pubkey'' \<mapsto> Str pubkey])"

definition NewRelayNode :: "string \<Rightarrow> val Node" where
  "NewRelayNode url = NewNode ''Relay'' (Some [''url'' \<mapsto> Str url])"

definition NewEventNode :: "string \<Rightarrow> val Node" where
  "NewEventNode eid = NewNode ''Event'' (Some [''id'' \<mapsto> Str eid])"

definition NewTagNode :: "string \<Rightarrow> string \<Rightarrow> string list \<Rightarrow> val Node" where
  "NewTagNode name v rest =
     NewNode ''Tag'' (Some [''name'' \<mapsto> Str name, ''value'' \<mapsto> Str v, ''rest'' \<mapsto> Strs rest])"

section \<open>Query generation and the pipeline\<close>

subsection \<open>Cypher formatting\<close>

definition ToCypherLabel :: "string \<Rightarrow> string" where
  "ToCypherLabel label = '':`'' @ label @ ''`''"

definition ToCypherLabels :: "string list \<Rightarrow> string" where
  "ToCypherLabels labels = Join (map ToCypherLabel labels) []"

definition ToCypherProps :: "string list \<Rightarrow> string \<Rightarrow> string" where
  "ToCypherProps keys prefix =
     (let prefix = (if prefix = [] then ''$'' else prefix)
      in Join (map (\<lambda>key. key @ '': '' @ prefix @ key) keys) '', '')"

subsection \<open>Bulk operations\<close>

text \<open>
  A bulk operation is the query text and its one list-valued parameter. The store is
  outside the program: \<open>db\<close> stands for \<open>neo4j.ExecuteQuery\<close> and answers an operation with
  an error or with none.
\<close>

datatype 'v query_param =
    NodesParam "'v Properties option list"
  | RelsParam "(string \<rightharpoonup> 'v Properties option) list"

type_synonym 'v store_op = "string \<times> 'v query_param"

definition Rel_Serialize :: "'v Relationship \<Rightarrow> (string \<rightharpoonup> 'v Properties option)" where
  "Rel_Serialize r =
     [''props'' \<mapsto> RProps r, ''start'' \<mapsto> Props (Start r), ''end'' \<mapsto> Props (End r)]"

definition nl :: string where
  "nl = [CHR 0x0A]"

definition indent :: string where
  "indent = [CHR 0x09, CHR 0x09]"

definition mergeNodes ::
  "('v store_op \<Rightarrow> error option) \<Rightarrow> string \<Rightarrow> string list \<Rightarrow> MatchKeys \<Rightarrow> 'v Node list
     \<Rightarrow> error + 'v store_op" where
  "mergeNodes db matchLabel nodeLabels mp ns =
     (let cypherLabels = ToCypherLabels nodeLabels
      in case GetKeys mp matchLabel of
           None \<Rightarrow> Inl (UnknownMatchLabel matchLabel)
         | Some matchKeys \<Rightarrow>
             (let cypherProps = ToCypherProps matchKeys ''node.'';
                  serializedNodes = map Serialize ns;
                  query = nl @ indent @ ''UNWIND $nodes as node'' @ nl @ nl
                    @ indent @ ''MERGE (n'' @ cypherLabels @ '' { '' @ cypherProps @ '' })'' @ nl
                    @ indent @ ''SET n += node'' @ nl @ indent;
                  op = (query, NodesParam serializedNodes)
              in case db op of Some err \<Rightarrow> Inl err | None \<Rightarrow> Inr op))"

definition mergeRels ::
  "('v store_op \<Rightarrow> error option) \<Rightarrow> string \<Rightarrow> string \<Rightarrow> string \<Rightarrow> MatchKeys
     \<Rightarrow> 'v Relationship list \<Rightarrow> error + 'v store_op" where
  "mergeRels db rtype startLabel endLabel mp rs =
     (let cypherType = ToCypherLabel rtype;
          startCypherLabel = ToCypherLabel startLabel;
          endCypherLabel = ToCypherLabel endLabel
      in case GetKeys mp startLabel of
           None \<Rightarrow> Inl (UnknownStartLabel startLabel)
         | Some matchKeys \<Rightarrow>
             (let startCypherProps = ToCypherProps matchKeys ''rel.start.''
              in case GetKeys mp endLabel of
                   None \<Rightarrow> Inl (UnknownEndLabel endLabel)
                 | Some matchKeys \<Rightarrow>
                     (let endCypherProps = ToCypherProps matchKeys ''rel.end.'';
                          serializedRels = map Rel_Serialize rs;
                          query = nl @ indent @ ''UNWIND $rels as rel'' @ nl @ nl
                            @ indent @ ''MATCH (start'' @ startCypherLabel @ '' { ''
                              @ startCypherProps @ '' })'' @ nl
                            @ indent @ ''MATCH (end'' @ endCypherLabel @ '' { ''
                              @ endCypherProps @ '' })'' @ nl @ nl
                            @ indent @ ''CREATE (start)-[r'' @ cypherType @ '']->(end)'' @ nl
                            @ indent @ ''SET r += rel.props'' @ nl @ indent;
                          op = (query, RelsParam serializedRels)
                      in case db op of Some err \<Rightarrow> Inl err | None \<Rightarrow> Inr op)))"

fun mergeSubgraph_nodes ::
  "('v store_op \<Rightarrow> error option) \<Rightarrow> 'v StructuredSubgraph \<Rightarrow> string list
     \<Rightarrow> error + 'v store_op list" where
  "mergeSubgraph_nodes db s [] = Inr []"
| "mergeSubgraph_nodes db s (nodeKey # ks) =
     (case DeserializeNodeKey nodeKey of
        Inl e \<Rightarrow> Inl e
      | Inr (matchLabel, labels) \<Rightarrow>
          (case mergeNodes db matchLabel labels (matchProvider s) (GetNodes s nodeKey) of
             Inl e \<Rightarrow> Inl e
           | Inr op \<Rightarrow>
               (case mergeSubgraph_nodes db s ks of
                  Inl e \<Rightarrow> Inl e
                | Inr ops \<Rightarrow> Inr (op # ops))))"

fun mergeSubgraph_rels ::
  "('v store_op \<Rightarrow> error option) \<Rightarrow> 'v StructuredSubgraph \<Rightarrow> string list
     \<Rightarrow> error + 'v store_op list" where
  "mergeSubgraph_rels db s [] = Inr []"
| "mergeSubgraph_rels db s (relKey # ks) =
     (case DeserializeRelKey relKey of
        Inl e \<Rightarrow> Inl e
      | Inr (rtype, startLabel, endLabel) \<Rightarrow>
          (case mergeRels db rtype startLabel endLabel (matchProvider s) (GetRels s relKey) of
             Inl e \<Rightarrow> Inl e
           | Inr op \<Rightarrow>
               (case mergeSubgraph_rels db s ks of
                  Inl e \<Rightarrow> Inl e
                | Inr ops \<Rightarrow> Inr (op # ops))))"

definition mergeSubgraph ::
  "('v store_op \<Rightarrow> error option) \<Rightarrow> 'v StructuredSubgraph \<Rightarrow> error + 'v store_op list" where
  "mergeSubgraph db s =
     (case mergeSubgraph_nodes db s (NodeKeys s) of
        Inl e \<Rightarrow> Inl e
      | Inr nops \<Rightarrow>
          (case mergeSubgraph_rels db s (RelKeys s) of
             Inl e \<Rightarrow> Inl e
           | Inr rops \<Rightarrow> Inr (nops @ rops)))"

subsection \<open>Merge stage\<close>

text \<open>
  \<open>MergeEntities\<close> drains the subgraph channel; the model takes the subgraphs it receives
  as a list. A flush is recorded as the accumulator handed to \<open>mergeSubgraph\<close> together
  with the operations it executed. \<open>merge_step\<close> is one pass of the \<open>for sg := range\<close>
  body: it returns the accumulator the next pass starts from and the flushes it made.
\<close>

type_synonym 'v flush = "'v StructuredSubgraph \<times> 'v store_op list"

definition merge_step ::
  "('v store_op \<Rightarrow> error option) \<Rightarrow> nat \<Rightarrow> MatchKeys \<Rightarrow> 'v StructuredSubgraph \<Rightarrow> 'v Subgraph
     \<Rightarrow> error + 'v StructuredSubgraph \<times> 'v flush list" where
  "merge_step db batchSize mp subgraph sg =
     (case AddNodes subgraph (sg_nodes sg) of
        Inl e \<Rightarrow> Inl e
      | Inr s1 \<Rightarrow>
          (case AddRels s1 (sg_rels sg) of
             Inl e \<Rightarrow> Inl e
           | Inr s2 \<Rightarrow>
               if NodeCount s2 > batchSize
               then (case mergeSubgraph db s2 of
                       Inl e \<Rightarrow> Inl e
                     | Inr ops \<Rightarrow> Inr (NewStructuredSubgraph mp, [(s2, ops)]))
               else Inr (s2, [])))"

fun merge_loop ::
  "('v store_op \<Rightarrow> error option) \<Rightarrow> nat \<Rightarrow> MatchKeys \<Rightarrow> 'v StructuredSubgraph
     \<Rightarrow> 'v Subgraph list \<Rightarrow> error + 'v StructuredSubgraph \<times> 'v flush list" where
  "merge_loop db batchSize mp subgraph [] = Inr (subgraph, [])"
| "merge_loop db batchSize mp subgraph (sg # rest) =
     (case merge_step db batchSize mp subgraph sg of
        Inl e \<Rightarrow> Inl e
      | Inr (subgraph', fs) \<Rightarrow>
          (case merge_loop db batchSize mp subgraph' rest of
             Inl e \<Rightarrow> Inl e
           | Inr (final, fs') \<Rightarrow> Inr (final, fs @ fs')))"

definition MergeEntities_with ::
  "('v store_op \<Rightarrow> error option) \<Rightarrow> nat \<Rightarrow> MatchKeys \<Rightarrow> 'v Subgraph list
     \<Rightarrow> error + 'v flush list" where
  "MergeEntities_with db batchSize mp subgraphChannel =
     (case merge_loop db batchSize mp (NewStructuredSubgraph mp) subgraphChannel of
        Inl e \<Rightarrow> Inl e
      | Inr (subgraph, fs) \<Rightarrow>
          (case mergeSubgraph db subgraph of
             Inl e \<Rightarrow> Inl e
           | Inr ops \<Rightarrow> Inr (fs @ [(subgraph, ops)])))"

definition MergeEntities ::
  "error option \<Rightarrow> ('v store_op \<Rightarrow> error option) \<Rightarrow> 'v Subgraph list \<Rightarrow> error + 'v flush list" where
  \<comment> \<open>\<open>connect\<close> is the outcome of \<open>connectNeo4j\<close>\<close>
  "MergeEntities connect db subgraphChannel =
     (case connect of
        Some err \<Rightarrow> Inl err
      | None \<Rightarrow> MergeEntities_with db 25000 NewMatchKeys subgraphChannel)"

subsection \<open>Source stage\<close>

text \<open>
  \<open>ImportEvents\<close> splits the file at newlines and walks the lines with their index.
  \<open>TrimSpace\<close> (\<open>strings.TrimSpace\<close>) and \<open>Unmarshal\<close> (\<open>json.Unmarshal\<close> into a zeroed
  event: the event it leaves behind and the error, if any) are library functions and
  parameters of the model. What the stage does is the list of its effects in order: a
  line written to the log, an event sent on the channel.
\<close>

datatype 'e effect = LogInvalid 'e | Send 'e

fun import_lines ::
  "(string \<Rightarrow> string) \<Rightarrow> (string \<Rightarrow> 'e \<times> 'x option) \<Rightarrow> nat \<Rightarrow> string list \<Rightarrow> 'e effect list" where
  "import_lines TrimSpace Unmarshal i [] = []"
| "import_lines TrimSpace Unmarshal i (line # rest) =
     (if i > 10000 then []
      else (let line = TrimSpace line
            in if line = [] then import_lines TrimSpace Unmarshal (i + 1) rest
               else (case Unmarshal line of
                       (event, err) \<Rightarrow>
                         (if err \<noteq> None then [LogInvalid event] else [])
                         @ [Send event]
                         @ import_lines TrimSpace Unmarshal (i + 1) rest)))"

definition ImportEvents ::
  "(string \<Rightarrow> string) \<Rightarrow> (string \<Rightarrow> 'e \<times> 'x option) \<Rightarrow> error + string \<Rightarrow> error + 'e effect list" where
  \<comment> \<open>\<open>file\<close> is the outcome of \<open>os.ReadFile("./export.json")\<close>\<close>
  "ImportEvents TrimSpace Unmarshal file =
     (case file of
        Inl err \<Rightarrow> Inl err
      | Inr data \<Rightarrow> Inr (import_lines TrimSpace Unmarshal 0 (Split data CHR 0x0A)))"

definition sent :: "'e effect list \<Rightarrow> 'e list" where
  \<comment> \<open>the events that reach the channel, in order\<close>
  "sent effects = concat (map (\<lambda>x. case x of Send e \<Rightarrow> [e] | LogInvalid e \<Rightarrow> []) effects)"

section \<open>Properties of the entity model\<close>

lemma NewSet_fset_of_list: "NewSet items = fset_of_list items"
proof -
  have "fold (\<lambda>i set. Add set i) items s = fset_of_list items |\<union>| s" for s
    by (induction items arbitrary: s) (auto simp: Add_def)
  then show ?thesis by (simp add: NewSet_def)
qed

lemma ToArray_sort:
  assumes "ToArray s array"
  shows "sort array = sorted_list_of_fset s"
proof -
  from assms have d: "distinct array" and s: "fset s = set array"
    by (auto simp: ToArray_def fset_of_list.rep_eq)
  have "sorted_list_of_set (set array) = sort array"
    using d by (simp add: sorted_list_of_set_sort_remdups distinct_remdups_id)
  then show ?thesis by (simp add: sorted_list_of_fset.rep_eq s)
qed

lemma match_values_Inr:
  "match_values np keys acc = Inr props \<longleftrightarrow>
     (\<forall>k \<in> set keys. prop_get np k \<noteq> None)
     \<and> props = (\<lambda>k. if k \<in> set keys then prop_get np k else acc k)"
proof (induction keys arbitrary: acc)
  case Nil
  then show ?case by auto
next
  case (Cons key keys)
  show ?case
  proof (cases "prop_get np key")
    case None
    then show ?thesis by auto
  next
    case (Some v)
    have eq: "(\<lambda>k. if k \<in> set keys then prop_get np k else (acc(key \<mapsto> v)) k)
        = (\<lambda>k. if k \<in> set (key # keys) then prop_get np k else acc k)"
      using Some by (auto simp: fun_eq_iff)
    have "match_values np (key # keys) acc = match_values np keys (acc(key \<mapsto> v))"
      using Some by simp
    also have "\<dots> = Inr props \<longleftrightarrow>
       (\<forall>k \<in> set keys. prop_get np k \<noteq> None)
       \<and> props = (\<lambda>k. if k \<in> set (key # keys) then prop_get np k else acc k)"
      unfolding Cons.IH [of "acc(key \<mapsto> v)"] eq ..
    also have "(\<forall>k \<in> set keys. prop_get np k \<noteq> None)
       \<longleftrightarrow> (\<forall>k \<in> set (key # keys). prop_get np k \<noteq> None)"
      using Some by simp
    finally show ?thesis .
  qed
qed

lemma match_values_Inl:
  "match_values np keys acc = Inl key \<Longrightarrow> key \<in> set keys \<and> prop_get np key = None"
  by (induction keys arbitrary: acc) (auto split: option.splits)

lemma match_labels_none:
  "(\<forall>l \<in> set ls. GetKeys mp l = None) \<Longrightarrow>
     match_labels n mp ls = ('''', None, Some (NoRecognizedLabel (Labels n)))"
  by (induction ls) auto

lemma match_labels_first:
  assumes "sorted ls" and "label \<in> set ls" and "GetKeys mp label = Some keys"
    and "\<forall>l \<in> set ls. GetKeys mp l \<noteq> None \<longrightarrow> label \<le> l"
  shows "match_labels n mp ls =
     (case match_values (Props n) keys Map.empty of
        Inl key \<Rightarrow> (label, None, Some (MissingMatchProperty key label))
      | Inr props \<Rightarrow> (label, Some props, None))"
  using assms
proof (induction ls)
  case Nil
  then show ?case by simp
next
  case (Cons x xs)
  show ?case
  proof (cases "x = label")
    case True
    then show ?thesis using Cons.prems by simp
  next
    case False
    then have mem: "label \<in> set xs" using Cons.prems by simp
    then have "x \<le> label" using Cons.prems(1) by simp
    then have "\<not> label \<le> x" using False by simp
    then have "GetKeys mp x = None" using Cons.prems(4) by auto
    moreover have "match_labels n mp xs =
     (case match_values (Props n) keys Map.empty of
        Inl key \<Rightarrow> (label, None, Some (MissingMatchProperty key label))
      | Inr props \<Rightarrow> (label, Some props, None))"
      using Cons.IH mem Cons.prems by simp
    ultimately show ?thesis by simp
  qed
qed

lemma MatchProps_none:
  assumes "\<forall>l. l |\<in>| Labels n \<longrightarrow> GetKeys mp l = None"
  shows "MatchProps n mp = ('''', None, Some (NoRecognizedLabel (Labels n)))"
  unfolding MatchProps_def using assms by (intro match_labels_none) simp

lemma MatchProps_first:
  assumes "label |\<in>| Labels n" and "GetKeys mp label = Some keys"
    and "\<forall>l. l |\<in>| Labels n \<and> GetKeys mp l \<noteq> None \<longrightarrow> label \<le> l"
  shows "MatchProps n mp =
     (case match_values (Props n) keys Map.empty of
        Inl key \<Rightarrow> (label, None, Some (MissingMatchProperty key label))
      | Inr props \<Rightarrow> (label, Some props, None))"
  unfolding MatchProps_def
  by (rule match_labels_first) (use assms in \<open>auto simp: sorted_list_of_fset.rep_eq\<close>)

text \<open>A non-empty finite set of registered labels has a least member.\<close>

lemma first_registered_exists:
  assumes "l0 |\<in>| Labels n" and "GetKeys mp l0 \<noteq> None"
  shows "\<exists>label keys. label |\<in>| Labels n \<and> GetKeys mp label = Some keys
           \<and> (\<forall>l. l |\<in>| Labels n \<and> GetKeys mp l \<noteq> None \<longrightarrow> label \<le> l)"
proof -
  let ?R = "{l. l |\<in>| Labels n \<and> GetKeys mp l \<noteq> None}"
  have fin: "finite ?R" by (rule finite_subset [of _ "fset (Labels n)"]) auto
  have ne: "?R \<noteq> {}" using assms by auto
  have "Min ?R \<in> ?R" using fin ne by (rule Min_in)
  moreover have "\<forall>l \<in> ?R. Min ?R \<le> l" using fin by simp
  ultimately show ?thesis by auto
qed


section \<open>Constructors, endpoint validation and match properties\<close>

text \<open>
  \<^bold>\<open>C10\<close> (nil-properties normalization). \<open>NewNode(label, nil)\<close> and
  \<open>NewRelationship(rtype, start, end, nil)\<close> return an entity whose property map is an
  allocated, empty map, for every label, type and endpoint pair. Reading any key of it
  finds nothing, and assigning to any key succeeds and gives the one-entry map.
\<close>

theorem nil_props_normalized:
  "Props (NewNode label None) = Some Map.empty
   \<and> RProps (NewRelationship rtype start end' None) = Some Map.empty
   \<and> prop_get (Props (NewNode label None)) key = None
   \<and> prop_get (RProps (NewRelationship rtype start end' None)) key = None
   \<and> prop_set (Props (NewNode label None)) key v = Inr (Some [key \<mapsto> v])
   \<and> prop_set (RProps (NewRelationship rtype start end' None)) key v = Inr (Some [key \<mapsto> v])"
  by (simp add: NewNode_def NewRelationship_def prop_get_def prop_set_def)

text \<open>
  \<^bold>\<open>C7\<close> (endpoint validation at construction). When the start node lacks the expected
  start label, or the end node lacks the expected end label, construction panics with the
  endpoint label mismatch of that role: the function returns the error and nothing else,
  no relationship is built and neither node is changed. Whenever construction succeeds,
  the result is \<open>NewRelationship\<close> of the arguments and both containments hold. A \<open>SIGNED\<close>
  relationship whose start node lacks \<open>User\<close> fails in this way.
\<close>

theorem endpoint_validation:
  "(startLabel |\<notin>| Labels start \<longrightarrow>
      NewRelationshipWithValidation rtype startLabel endLabel start end' props
        = Inl (EndpointLabelMismatch ''start'' startLabel (Labels start)))
   \<and> (startLabel |\<in>| Labels start \<and> endLabel |\<notin>| Labels end' \<longrightarrow>
      NewRelationshipWithValidation rtype startLabel endLabel start end' props
        = Inl (EndpointLabelMismatch ''end'' endLabel (Labels end')))
   \<and> (\<forall>r. NewRelationshipWithValidation rtype startLabel endLabel start end' props = Inr r \<longrightarrow>
          startLabel |\<in>| Labels (Start r) \<and> endLabel |\<in>| Labels (End r)
          \<and> r = NewRelationship rtype start end' props)
   \<and> (''User'' |\<notin>| Labels start \<longrightarrow>
      NewSignedRel start end' props = Inl (EndpointLabelMismatch ''start'' ''User'' (Labels start)))"
  by (auto simp: NewRelationshipWithValidation_def validateNodeLabel_def Contains_def
      NewSignedRel_def NewRelationship_def Let_def split: sum.splits if_splits)

theorem endpoint_validation_witness:
  "NewSignedRel (NewEventNode ''ev1'') (NewEventNode ''ev1'') None
     = Inl (EndpointLabelMismatch ''start'' ''User'' {|''Event''|})
   \<and> NewRelationshipWithValidation ''SIGNED'' ''User'' ''Event''
        (NewUserNode ''pk1'') (NewUserNode ''pk2'') None
     = Inl (EndpointLabelMismatch ''end'' ''Event'' {|''User''|})
   \<and> NewRelationshipWithValidation ''SIGNED'' ''User'' ''Event''
        (NewUserNode ''pk1'') (NewEventNode ''ev1'') None
     = Inr (NewRelationship ''SIGNED'' (NewUserNode ''pk1'') (NewEventNode ''ev1'') None)
   \<and> ''User'' |\<in>| Labels (Start (NewRelationship ''SIGNED''
        (NewUserNode ''pk1'') (NewEventNode ''ev1'') (None :: val Properties option)))
   \<and> ''Event'' |\<in>| Labels (End (NewRelationship ''SIGNED''
        (NewUserNode ''pk1'') (NewEventNode ''ev1'') (None :: val Properties option)))"
proof -
  have u: "Labels (NewUserNode p) = {|''User''|}" for p
    by (simp add: NewUserNode_def NewNode_def NewSet_def Add_def)
  have e: "Labels (NewEventNode p) = {|''Event''|}" for p
    by (simp add: NewEventNode_def NewNode_def NewSet_def Add_def)
  have ok: "NewRelationshipWithValidation ''SIGNED'' ''User'' ''Event''
        (NewUserNode ''pk1'') (NewEventNode ''ev1'') None
     = Inr (NewRelationship ''SIGNED'' (NewUserNode ''pk1'') (NewEventNode ''ev1'') None)"
    by (simp add: NewRelationshipWithValidation_def validateNodeLabel_def Contains_def u e)
  have lu: "''User'' |\<notin>| {|''Event''|}" "''Event'' |\<notin>| {|''User''|}"
    by simp_all
  have 1: "NewSignedRel (NewEventNode ''ev1'') (NewEventNode ''ev1'') None
     = Inl (EndpointLabelMismatch ''start'' ''User'' {|''Event''|})"
    using endpoint_validation [where startLabel = "''User''" and endLabel = "''Event''"
        and rtype = "''SIGNED''" and start = "NewEventNode ''ev1''"
        and end' = "NewEventNode ''ev1''" and props = None] lu
    unfolding e by blast
  have 2: "NewRelationshipWithValidation ''SIGNED'' ''User'' ''Event''
        (NewUserNode ''pk1'') (NewUserNode ''pk2'') None
     = Inl (EndpointLabelMismatch ''end'' ''Event'' {|''User''|})"
    using endpoint_validation [where startLabel = "''User''" and endLabel = "''Event''"
        and rtype = "''SIGNED''" and start = "NewUserNode ''pk1''"
        and end' = "NewUserNode ''pk2''" and props = None] lu
    unfolding u by blast
  have 3: "''User'' |\<in>| Labels (Start (NewRelationship ''SIGNED''
        (NewUserNode ''pk1'') (NewEventNode ''ev1'') (None :: val Properties option)))
   \<and> ''Event'' |\<in>| Labels (End (NewRelationship ''SIGNED''
        (NewUserNode ''pk1'') (NewEventNode ''ev1'') (None :: val Properties option)))"
    using endpoint_validation [where startLabel = "''User''" and endLabel = "''Event''"
        and rtype = "''SIGNED''" and start = "NewUserNode ''pk1''"
        and end' = "NewEventNode ''ev1''" and props = None] ok
    by blast
  show ?thesis using 1 2 3 ok by blast
qed

text \<open>
  \<^bold>\<open>C3\<close> (match-label resolution is deterministic). For every node and registry, if
  \<open>label\<close> is the least label of the node, in the order of \<open>sort.Strings\<close>, that has a
  registry entry, then \<open>MatchProps\<close> returns that label, and, when the node has every match
  key of the label, returns with it exactly the node's values of these keys and no error.
  The result does not depend on the order in which \<open>ToArray\<close> enumerates the label set, nor
  on the order in which the labels were added to the set. A node whose labels are
  \<open>Event\<close> and \<open>Tag\<close>, added in any order, with only \<open>Tag\<close> registered, yields \<open>Tag\<close>.
\<close>

theorem MatchProps_first_sorted_label:
  "(\<forall>label keys.
      label |\<in>| Labels n \<and> GetKeys mp label = Some keys
        \<and> (\<forall>l. l |\<in>| Labels n \<and> GetKeys mp l \<noteq> None \<longrightarrow> label \<le> l) \<longrightarrow>
      fst (MatchProps n mp) = label
      \<and> ((\<forall>key \<in> set keys. prop_get (Props n) key \<noteq> None) \<longrightarrow>
           MatchProps n mp =
             (label, Some (\<lambda>key. if key \<in> set keys then prop_get (Props n) key else None), None)))
   \<and> (\<forall>array. ToArray (Labels n) array \<longrightarrow> match_labels n mp (sort array) = MatchProps n mp)
   \<and> (\<forall>ls1 ls2. set ls1 = set ls2 \<longrightarrow>
         MatchProps (n\<lparr>Labels := NewSet ls1\<rparr>) mp = MatchProps (n\<lparr>Labels := NewSet ls2\<rparr>) mp)
   \<and> (\<forall>ls. set ls = {''Event'', ''Tag''} \<and> GetKeys mp ''Event'' = None \<and> GetKeys mp ''Tag'' \<noteq> None \<longrightarrow>
         fst (MatchProps (n\<lparr>Labels := NewSet ls\<rparr>) mp) = ''Tag'')"
proof (intro conjI allI impI)
  fix label keys
  assume a: "label |\<in>| Labels n \<and> GetKeys mp label = Some keys
        \<and> (\<forall>l. l |\<in>| Labels n \<and> GetKeys mp l \<noteq> None \<longrightarrow> label \<le> l)"
  then have m: "MatchProps n mp =
     (case match_values (Props n) keys Map.empty of
        Inl key \<Rightarrow> (label, None, Some (MissingMatchProperty key label))
      | Inr props \<Rightarrow> (label, Some props, None))"
    by (intro MatchProps_first) auto
  show "fst (MatchProps n mp) = label"
    unfolding m by (simp split: sum.splits)
  assume "\<forall>key \<in> set keys. prop_get (Props n) key \<noteq> None"
  then have "match_values (Props n) keys Map.empty
      = Inr (\<lambda>key. if key \<in> set keys then prop_get (Props n) key else None)"
    unfolding match_values_Inr by simp
  then show "MatchProps n mp =
      (label, Some (\<lambda>key. if key \<in> set keys then prop_get (Props n) key else None), None)"
    unfolding m by simp
next
  fix array
  assume "ToArray (Labels n) array"
  then show "match_labels n mp (sort array) = MatchProps n mp"
    by (simp add: MatchProps_def ToArray_sort)
next
  fix ls1 ls2 :: "string list"
  assume "set ls1 = set ls2"
  then have "NewSet ls1 = NewSet ls2"
    unfolding NewSet_fset_of_list by (simp add: fset_eq_iff fset_of_list.rep_eq)
  then show "MatchProps (n\<lparr>Labels := NewSet ls1\<rparr>) mp = MatchProps (n\<lparr>Labels := NewSet ls2\<rparr>) mp"
    by simp
next
  fix ls :: "string list"
  assume a: "set ls = {''Event'', ''Tag''} \<and> GetKeys mp ''Event'' = None
    \<and> GetKeys mp ''Tag'' \<noteq> None"
  then have a1: "set ls = {''Event'', ''Tag''}" and a2: "GetKeys mp ''Event'' = None"
    and a3: "GetKeys mp ''Tag'' \<noteq> None" by blast+
  from a3 obtain keys where k: "GetKeys mp ''Tag'' = Some keys" by blast
  let ?n = "n\<lparr>Labels := NewSet ls\<rparr>"
  have "fset (Labels ?n) = set ls"
    by (simp add: NewSet_fset_of_list fset_of_list.rep_eq)
  then have "fset (Labels ?n) = {''Event'', ''Tag''}"
    unfolding a1 .
  then have L: "\<And>l. l |\<in>| Labels ?n \<longleftrightarrow> l = ''Event'' \<or> l = ''Tag''"
    by blast
  have "MatchProps ?n mp =
     (case match_values (Props ?n) keys Map.empty of
        Inl key \<Rightarrow> (''Tag'', None, Some (MissingMatchProperty key ''Tag''))
      | Inr props \<Rightarrow> (''Tag'', Some props, None))"
  proof (rule MatchProps_first)
    show "''Tag'' |\<in>| Labels ?n" using L by blast
    show "GetKeys mp ''Tag'' = Some keys" by (rule k)
    show "\<forall>l. l |\<in>| Labels ?n \<and> GetKeys mp l \<noteq> None \<longrightarrow> ''Tag'' \<le> l"
    proof (intro allI impI)
      fix l
      assume h: "l |\<in>| Labels ?n \<and> GetKeys mp l \<noteq> None"
      then have "l = ''Event'' \<or> l = ''Tag''" using L by blast
      moreover have "l \<noteq> ''Event''" using h a2 by blast
      ultimately show "''Tag'' \<le> l" by simp
    qed
  qed
  then show "fst (MatchProps ?n mp) = ''Tag''"
    by (simp split: sum.splits)
qed

theorem MatchProps_first_sorted_label_witness:
  "MatchProps \<lparr>Labels = NewSet [''Tag'', ''Event''],
                Props = Some [''name'' \<mapsto> Str ''e'', ''value'' \<mapsto> Str ''ev0'']\<rparr>
      [''Tag'' \<mapsto> [''name'', ''value'']]
     = (''Tag'', Some [''name'' \<mapsto> Str ''e'', ''value'' \<mapsto> Str ''ev0''], None)
   \<and> fst (MatchProps \<lparr>Labels = NewSet [''Event'', ''Tag''],
                Props = Some [''name'' \<mapsto> Str ''e'', ''value'' \<mapsto> Str ''ev0'']\<rparr>
      [''Tag'' \<mapsto> [''name'', ''value'']]) = ''Tag''"
proof -
  let ?p = "Some [''name'' \<mapsto> Str ''e'', ''value'' \<mapsto> Str ''ev0'']"
  let ?n = "\<lparr>Labels = NewSet [''Tag'', ''Event''], Props = ?p\<rparr>"
  let ?mp = "[''Tag'' \<mapsto> [''name'', ''value'']] :: MatchKeys"
  note T = MatchProps_first_sorted_label [of ?n ?mp]
  have h1: "''Tag'' |\<in>| Labels ?n \<and> GetKeys ?mp ''Tag'' = Some [''name'', ''value'']
        \<and> (\<forall>l. l |\<in>| Labels ?n \<and> GetKeys ?mp l \<noteq> None \<longrightarrow> ''Tag'' \<le> l)"
    by (simp add: NewSet_def Add_def GetKeys_def)
  have h2: "\<forall>key \<in> set [''name'', ''value'']. prop_get (Props ?n) key \<noteq> None"
    by (simp add: prop_get_def)
  have "MatchProps ?n ?mp =
     (''Tag'', Some (\<lambda>key. if key \<in> set [''name'', ''value'']
                             then prop_get (Props ?n) key else None), None)"
    using T h1 h2 by blast
  moreover have "(\<lambda>key. if key \<in> set [''name'', ''value'']
                             then prop_get (Props ?n) key else None)
      = [''name'' \<mapsto> Str ''e'', ''value'' \<mapsto> Str ''ev0'']"
    by (auto simp: fun_eq_iff prop_get_def)
  ultimately have 1: "MatchProps ?n ?mp = (''Tag'', ?p, None)" by simp
  have "set [''Event'', ''Tag''] = {''Event'', ''Tag''} \<and> GetKeys ?mp ''Event'' = None
      \<and> GetKeys ?mp ''Tag'' \<noteq> None"
    by (simp add: GetKeys_def)
  then have "fst (MatchProps (?n\<lparr>Labels := NewSet [''Event'', ''Tag'']\<rparr>) ?mp) = ''Tag''"
    using T by blast
  then show ?thesis using 1 by simp
qed

text \<open>
  \<^bold>\<open>C6\<close> (error conditions of \<open>MatchProps\<close>). Write \<open>first label keys\<close> when \<open>label\<close> is the
  least label of the node that has a registry entry and \<open>keys\<close> is that entry. For every
  node and registry: the error is a missing match property exactly when there is such a
  first label and the node lacks one of its keys (and the error then names that label and
  a key the node lacks); it is the no-recognized-label error exactly when no label of the
  node has a registry entry; and there is no error exactly when the first registered label
  exists and the node has all of its keys, in which case the properties returned are not
  nil. These three cases are all there are.
\<close>

theorem MatchProps_error_conditions:
  fixes n :: "'v Node" and mp :: MatchKeys
  defines "first \<equiv> \<lambda>label keys. label |\<in>| Labels n \<and> GetKeys mp label = Some keys
             \<and> (\<forall>l. l |\<in>| Labels n \<and> GetKeys mp l \<noteq> None \<longrightarrow> label \<le> l)"
  defines "err \<equiv> snd (snd (MatchProps n mp))"
  shows "((\<exists>key label. err = Some (MissingMatchProperty key label)) \<longleftrightarrow>
            (\<exists>label keys. first label keys \<and> (\<exists>key \<in> set keys. prop_get (Props n) key = None)))
       \<and> (\<forall>key label. err = Some (MissingMatchProperty key label) \<longrightarrow>
            (\<exists>keys. first label keys \<and> key \<in> set keys \<and> prop_get (Props n) key = None))
       \<and> (err = Some (NoRecognizedLabel (Labels n)) \<longleftrightarrow>
            (\<forall>l. l |\<in>| Labels n \<longrightarrow> GetKeys mp l = None))
       \<and> (err = None \<longleftrightarrow>
            (\<exists>label keys. first label keys \<and> (\<forall>key \<in> set keys. prop_get (Props n) key \<noteq> None)))
       \<and> (err = None \<longrightarrow> fst (snd (MatchProps n mp)) \<noteq> None)
       \<and> (err = None \<or> err = Some (NoRecognizedLabel (Labels n))
            \<or> (\<exists>key label. err = Some (MissingMatchProperty key label)))"
proof (cases "\<exists>l. l |\<in>| Labels n \<and> GetKeys mp l \<noteq> None")
  case False
  then have none: "\<forall>l. l |\<in>| Labels n \<longrightarrow> GetKeys mp l = None" by blast
  then have "MatchProps n mp = ([], None, Some (NoRecognizedLabel (Labels n)))"
    by (rule MatchProps_none)
  then have e: "err = Some (NoRecognizedLabel (Labels n))" by (simp add: err_def)
  have nf: "\<And>label keys. \<not> first label keys" using none by (auto simp: first_def)
  show ?thesis unfolding e using none nf by simp
next
  case True
  then obtain l0 where "l0 |\<in>| Labels n" "GetKeys mp l0 \<noteq> None" by blast
  then obtain label keys where f: "first label keys"
    using first_registered_exists [of l0 n mp] unfolding first_def by blast
  have uniq: "label' = label \<and> keys' = keys" if "first label' keys'" for label' keys'
  proof -
    have "label' \<le> label" "label \<le> label'" using that f unfolding first_def by auto
    then have "label' = label" by simp
    then show ?thesis using that f unfolding first_def by auto
  qed
  have m: "MatchProps n mp =
     (case match_values (Props n) keys Map.empty of
        Inl key \<Rightarrow> (label, None, Some (MissingMatchProperty key label))
      | Inr props \<Rightarrow> (label, Some props, None))"
    using f unfolding first_def by (intro MatchProps_first) auto
  have reg: "\<not> (\<forall>l. l |\<in>| Labels n \<longrightarrow> GetKeys mp l = None)" using True by auto
  show ?thesis
  proof (cases "match_values (Props n) keys Map.empty")
    case (Inl key)
    then have e: "err = Some (MissingMatchProperty key label)" by (simp add: err_def m)
    have k: "key \<in> set keys \<and> prop_get (Props n) key = None"
      using match_values_Inl [OF Inl] .
    have "\<not> (\<exists>label keys. first label keys \<and> (\<forall>key \<in> set keys. prop_get (Props n) key \<noteq> None))"
      using uniq k by blast
    moreover have "\<exists>label keys. first label keys \<and> (\<exists>key \<in> set keys. prop_get (Props n) key = None)"
      using f k by blast
    moreover have "\<exists>keys. first label keys \<and> key \<in> set keys \<and> prop_get (Props n) key = None"
      using f k by blast
    ultimately show ?thesis unfolding e using reg by simp
  next
    case (Inr props)
    then have e: "err = None" and p: "fst (snd (MatchProps n mp)) \<noteq> None"
      by (simp_all add: err_def m)
    have all: "\<forall>key \<in> set keys. prop_get (Props n) key \<noteq> None"
      using Inr unfolding match_values_Inr by blast
    have "\<not> (\<exists>label keys. first label keys \<and> (\<exists>key \<in> set keys. prop_get (Props n) key = None))"
      using uniq all by blast
    moreover have "\<exists>label keys. first label keys \<and> (\<forall>key \<in> set keys. prop_get (Props n) key \<noteq> None)"
      using f all by blast
    ultimately show ?thesis unfolding e using reg p by simp
  qed
qed

theorem MatchProps_error_conditions_witness:
  "snd (snd (MatchProps (NewNode ''Tag'' (Some [''name'' \<mapsto> Str ''e''])) NewMatchKeys))
     = Some (MissingMatchProperty ''value'' ''Tag'')
   \<and> snd (snd (MatchProps (NewNode ''Note'' (Some [''id'' \<mapsto> Str ''x''])) NewMatchKeys))
     = Some (NoRecognizedLabel {|''Note''|})
   \<and> snd (snd (MatchProps (NewUserNode ''pk1'') NewMatchKeys)) = None
   \<and> fst (snd (MatchProps (NewUserNode ''pk1'') NewMatchKeys)) \<noteq> None"
proof -
  let ?t = "NewNode ''Tag'' (Some [''name'' \<mapsto> Str ''e''])"
  let ?x = "NewNode ''Note'' (Some [''id'' \<mapsto> Str ''x''])"
  let ?u = "NewUserNode ''pk1''"
  have Lt: "Labels ?t = {|''Tag''|}" and Lx: "Labels ?x = {|''Note''|}"
    and Lu: "Labels ?u = {|''User''|}"
    by (simp_all add: NewUserNode_def NewNode_def NewSet_def Add_def)
  have Pt: "prop_get (Props ?t) ''name'' \<noteq> None" "prop_get (Props ?t) ''value'' = None"
    and Pu: "prop_get (Props ?u) ''pubkey'' \<noteq> None"
    by (simp_all add: NewUserNode_def NewNode_def prop_get_def)
  have K: "GetKeys NewMatchKeys ''Tag'' = Some [''name'', ''value'']"
    "GetKeys NewMatchKeys ''User'' = Some [''pubkey'']" "GetKeys NewMatchKeys ''Note'' = None"
    by (simp_all add: GetKeys_def NewMatchKeys_def)
  note Tt = MatchProps_error_conditions [of ?t NewMatchKeys, unfolded Lt]
  note Tx = MatchProps_error_conditions [of ?x NewMatchKeys, unfolded Lx]
  note Tu = MatchProps_error_conditions [of ?u NewMatchKeys, unfolded Lu]
  have 1: "snd (snd (MatchProps ?t NewMatchKeys)) = Some (MissingMatchProperty ''value'' ''Tag'')"
  proof -
    have f: "''Tag'' |\<in>| {|''Tag''|} \<and> GetKeys NewMatchKeys ''Tag'' = Some [''name'', ''value'']
          \<and> (\<forall>l. l |\<in>| {|''Tag''|} \<and> GetKeys NewMatchKeys l \<noteq> None \<longrightarrow> ''Tag'' \<le> l)"
      using K(1) by simp
    have "\<exists>key \<in> set [''name'', ''value'']. prop_get (Props ?t) key = None"
      using Pt(2) by simp
    with f have "\<exists>label keys. (label |\<in>| {|''Tag''|} \<and> GetKeys NewMatchKeys label = Some keys
          \<and> (\<forall>l. l |\<in>| {|''Tag''|} \<and> GetKeys NewMatchKeys l \<noteq> None \<longrightarrow> label \<le> l))
          \<and> (\<exists>key \<in> set keys. prop_get (Props ?t) key = None)"
      by (intro exI conjI) blast+
    then obtain key label where e: "snd (snd (MatchProps ?t NewMatchKeys))
        = Some (MissingMatchProperty key label)"
      using Tt [THEN conjunct1] by blast
    then obtain keys where g: "label |\<in>| {|''Tag''|}" "GetKeys NewMatchKeys label = Some keys"
       "key \<in> set keys" "prop_get (Props ?t) key = None"
      using Tt [THEN conjunct2, THEN conjunct1] by blast
    from g(1) have l: "label = ''Tag''" by simp
    with g(2) K(1) have "keys = [''name'', ''value'']" by simp
    with g(3) g(4) Pt(1) have "key = ''value''" by auto
    then show ?thesis using e l by simp
  qed
  have 2: "snd (snd (MatchProps ?x NewMatchKeys)) = Some (NoRecognizedLabel {|''Note''|})"
  proof -
    have "\<forall>l. l |\<in>| {|''Note''|} \<longrightarrow> GetKeys NewMatchKeys l = None"
      using K(3) by simp
    then show ?thesis
      using Tx [THEN conjunct2, THEN conjunct2, THEN conjunct1] by blast
  qed
  have 3: "snd (snd (MatchProps ?u NewMatchKeys)) = None"
  proof -
    have f: "''User'' |\<in>| {|''User''|} \<and> GetKeys NewMatchKeys ''User'' = Some [''pubkey'']
          \<and> (\<forall>l. l |\<in>| {|''User''|} \<and> GetKeys NewMatchKeys l \<noteq> None \<longrightarrow> ''User'' \<le> l)"
      using K(2) by simp
    have "\<forall>key \<in> set [''pubkey'']. prop_get (Props ?u) key \<noteq> None"
      using Pu by simp
    with f have "\<exists>label keys. (label |\<in>| {|''User''|} \<and> GetKeys NewMatchKeys label = Some keys
          \<and> (\<forall>l. l |\<in>| {|''User''|} \<and> GetKeys NewMatchKeys l \<noteq> None \<longrightarrow> label \<le> l))
          \<and> (\<forall>key \<in> set keys. prop_get (Props ?u) key \<noteq> None)"
      by (intro exI conjI) blast+
    then show ?thesis
      using Tu [THEN conjunct2, THEN conjunct2, THEN conjunct2, THEN conjunct1] by blast
  qed
  then have 4: "fst (snd (MatchProps ?u NewMatchKeys)) \<noteq> None"
    using Tu [THEN conjunct2, THEN conjunct2, THEN conjunct2, THEN conjunct2, THEN conjunct1]
    by blast
  show ?thesis using 1 2 3 4 by blast
qed

section \<open>Sort keys: splitting and joining\<close>

lemma Split_not_Nil: "Split s c \<noteq> []"
  by (induction s) (auto split: list.splits)

lemma Split_no_sep: "c \<notin> set s \<Longrightarrow> Split s c = [s]"
  by (induction s) auto

lemma Split_append_sep: "c \<notin> set a \<Longrightarrow> Split (a @ c # b) c = a # Split b c"
  by (induction a) auto

lemma length_Split: "length (Split s c) = Suc (count_list s c)"
proof (induction s)
  case Nil
  then show ?case by simp
next
  case (Cons x xs)
  then show ?case by (cases "Split xs c") (auto simp: Split_not_Nil)
qed

lemma Split_Join:
  assumes "ls \<noteq> []" and "\<forall>l \<in> set ls. c \<notin> set l"
  shows "Split (Join ls [c]) c = ls"
  using assms
proof (induction ls "[c]" rule: Join.induct)
  case 1
  then show ?case by simp
next
  case (2 x)
  then show ?case by (simp add: Split_no_sep)
next
  case (3 x y ys)
  then show ?case by (simp add: Split_append_sep)
qed

lemma count_list_append: "count_list (xs @ ys) c = count_list xs c + count_list ys c"
  by (induction xs) auto

lemma count_list_Join:
  "ls \<noteq> [] \<Longrightarrow>
     count_list (Join ls [c]) c = (length ls - 1) + sum_list (map (\<lambda>l. count_list l c) ls)"
proof (induction ls "[c]" rule: Join.induct)
  case 1
  then show ?case by simp
next
  case (2 x)
  then show ?case by simp
next
  case (3 x y ys)
  then show ?case by (simp add: count_list_append)
qed

lemma count_list_Join_other:
  "c \<noteq> d \<Longrightarrow> count_list (Join ls [d]) c = sum_list (map (\<lambda>l. count_list l c) ls)"
  by (induction ls "[d]" rule: Join.induct) (auto simp: count_list_append)

lemma count_list_0_iff: "count_list xs c = 0 \<longleftrightarrow> c \<notin> set xs"
  by (induction xs) auto

lemma sum_list_count_0_iff:
  "sum_list (map (\<lambda>l. count_list l c) ls) = 0 \<longleftrightarrow> (\<forall>l \<in> set ls. c \<notin> set l)"
  by (induction ls) (auto simp: count_list_0_iff)

text \<open>
  \<open>createNodeSortKey\<close> sorts the array it is given, so the key does not depend on the order
  in which \<open>ToArray\<close> enumerated the label set.
\<close>

lemma createNodeSortKey_ToArray:
  assumes "ToArray s array"
  shows "createNodeSortKey matchLabel array
           = createNodeSortKey matchLabel (sorted_list_of_fset s)"
proof -
  have "sort (sorted_list_of_fset s) = sorted_list_of_fset s"
    by (simp add: sorted_list_of_fset.rep_eq sort_key_id_if_sorted)
  then show ?thesis
    using ToArray_sort [OF assms] by (simp add: createNodeSortKey_def)
qed

lemma createNodeSortKey_Split:
  assumes "CHR '':'' \<notin> set matchLabel" and "\<forall>l \<in> set labels. CHR '':'' \<notin> set l"
  shows "DeserializeNodeKey (createNodeSortKey matchLabel labels)
           = Inr (matchLabel, Split (Join (sort labels) '','') CHR '','')"
proof -
  let ?J = "Join (sort labels) '',''"
  have "count_list ?J CHR '':'' = 0"
    using assms(2) by (simp add: count_list_Join_other sum_list_count_0_iff)
  then have "CHR '':'' \<notin> set ?J" by (simp add: count_list_0_iff)
  then have "Split (matchLabel @ CHR '':'' # ?J) CHR '':'' = [matchLabel, ?J]"
    using assms(1) by (simp add: Split_append_sep Split_no_sep)
  then show ?thesis
    by (simp add: DeserializeNodeKey_def createNodeSortKey_def Let_def)
qed

lemma createNodeSortKey_colon:
  assumes "CHR '':'' \<in> set matchLabel \<or> (\<exists>l \<in> set labels. CHR '':'' \<in> set l)"
  shows "DeserializeNodeKey (createNodeSortKey matchLabel labels)
           = Inl (InvalidNodeSortKey (createNodeSortKey matchLabel labels))"
proof -
  let ?J = "Join (sort labels) '',''"
  have "count_list matchLabel CHR '':'' \<noteq> 0 \<or> count_list ?J CHR '':'' \<noteq> 0"
    using assms by (auto simp: count_list_Join_other sum_list_count_0_iff count_list_0_iff)
  then have "length (Split (matchLabel @ CHR '':'' # ?J) CHR '':'') \<noteq> 2"
    by (auto simp: length_Split count_list_append)
  then show ?thesis
    by (simp add: DeserializeNodeKey_def createNodeSortKey_def Let_def)
qed

text \<open>
  \<^bold>\<open>C8\<close> (node group key round trip). A pair of a match label and a label list is valid
  when the list is not empty, the match label contains no \<open>:\<close> and no label contains \<open>:\<close>
  or \<open>,\<close>, the two delimiters of the key. For every valid pair whose label list is sorted,
  \<open>DeserializeNodeKey\<close> applied to the key of \<open>createNodeSortKey\<close> returns the match label
  and the label list unchanged; for a valid pair given in any order it returns the sorted
  list. Validity is exactly what the round trip needs: for a pair that is not valid, the
  key does not deserialize to the match label and the sorted labels.
\<close>

theorem node_key_roundtrip:
  fixes matchLabel :: string and labels :: "string list"
  defines "valid \<equiv> labels \<noteq> [] \<and> CHR '':'' \<notin> set matchLabel
                    \<and> (\<forall>l \<in> set labels. CHR '':'' \<notin> set l \<and> CHR '','' \<notin> set l)"
  shows "(valid \<and> sorted labels \<longrightarrow>
            DeserializeNodeKey (createNodeSortKey matchLabel labels) = Inr (matchLabel, labels))
       \<and> (valid \<longrightarrow>
            DeserializeNodeKey (createNodeSortKey matchLabel labels) = Inr (matchLabel, sort labels))
       \<and> (\<not> valid \<longrightarrow>
            DeserializeNodeKey (createNodeSortKey matchLabel labels) \<noteq> Inr (matchLabel, sort labels))"
proof -
  let ?D = "DeserializeNodeKey (createNodeSortKey matchLabel labels)"
  let ?J = "Join (sort labels) '',''"
  have ok: "?D = Inr (matchLabel, sort labels)" if valid
  proof -
    have "sort labels \<noteq> []" using that unfolding valid_def
      by (metis length_sort length_0_conv)
    moreover have "\<forall>l \<in> set (sort labels). CHR '','' \<notin> set l"
      using that unfolding valid_def by simp
    ultimately have "Split ?J CHR '','' = sort labels" by (rule Split_Join)
    moreover have "?D = Inr (matchLabel, Split ?J CHR '','')"
      using that unfolding valid_def by (intro createNodeSortKey_Split) auto
    ultimately show ?thesis by simp
  qed
  have bad: "?D \<noteq> Inr (matchLabel, sort labels)" if "\<not> valid"
  proof (cases "CHR '':'' \<in> set matchLabel \<or> (\<exists>l \<in> set labels. CHR '':'' \<in> set l)")
    case True
    then show ?thesis using createNodeSortKey_colon [of matchLabel labels] by simp
  next
    case False
    then have D: "?D = Inr (matchLabel, Split ?J CHR '','')"
      by (intro createNodeSortKey_Split) auto
    show ?thesis
    proof (cases "labels = []")
      case True
      then show ?thesis unfolding D by simp
    next
      case ne: False
      then have comma: "\<not> (\<forall>l \<in> set (sort labels). CHR '','' \<notin> set l)"
        using that False unfolding valid_def by auto
      have "sort labels \<noteq> []" using ne by (metis length_sort length_0_conv)
      then have "length (Split ?J CHR '','')
          = Suc (length (sort labels) - 1
                  + sum_list (map (\<lambda>l. count_list l CHR '','') (sort labels)))"
        by (simp add: length_Split count_list_Join)
      moreover have "sum_list (map (\<lambda>l. count_list l CHR '','') (sort labels)) \<noteq> 0"
        using comma unfolding sum_list_count_0_iff .
      moreover have "0 < length (sort labels)" using ne by simp
      ultimately have "length (Split ?J CHR '','') \<noteq> length (sort labels)"
        by arith
      then show ?thesis unfolding D by auto
    qed
  qed
  have "sort labels = labels" if "sorted labels"
    using that by (simp add: sort_key_id_if_sorted)
  then show ?thesis using ok bad by auto
qed

theorem node_key_roundtrip_witness:
  "DeserializeNodeKey (createNodeSortKey ''Tag'' [''Event'', ''Tag''])
     = Inr (''Tag'', [''Event'', ''Tag''])
   \<and> DeserializeNodeKey (createNodeSortKey ''Tag'' [''Tag'', ''Event''])
     = Inr (''Tag'', [''Event'', ''Tag''])
   \<and> DeserializeNodeKey (createNodeSortKey ''Tag'' [''Tag'', ''a,b''])
     \<noteq> Inr (''Tag'', [''Tag'', ''a,b''])"
proof -
  have 1: "DeserializeNodeKey (createNodeSortKey ''Tag'' [''Event'', ''Tag''])
     = Inr (''Tag'', [''Event'', ''Tag''])"
    using node_key_roundtrip [of "[''Event'', ''Tag'']" "''Tag''"] by simp
  have 2: "DeserializeNodeKey (createNodeSortKey ''Tag'' [''Tag'', ''Event''])
     = Inr (''Tag'', [''Event'', ''Tag''])"
    using node_key_roundtrip [of "[''Tag'', ''Event'']" "''Tag''"] by simp
  have 3: "DeserializeNodeKey (createNodeSortKey ''Tag'' [''Tag'', ''a,b''])
     \<noteq> Inr (''Tag'', [''Tag'', ''a,b''])"
    using node_key_roundtrip [of "[''Tag'', ''a,b'']" "''Tag''"] by simp
  show ?thesis using 1 2 3 by blast
qed

section \<open>The accumulator\<close>

lemma bucket_Cons:
  "bucket ((k', v) # m) k = (if k' = k then v else bucket m k)"
  by (simp add: bucket_def)

lemma bucket_entries:
  "distinct (map fst m) \<Longrightarrow> map (\<lambda>k. bucket m k) (map fst m) = map snd m"
proof (induction m)
  case Nil
  then show ?case by simp
next
  case (Cons e m)
  obtain k v where e: "e = (k, v)" by (cases e)
  have "map (\<lambda>k'. bucket ((k, v) # m) k') (map fst m) = map (\<lambda>k'. bucket m k') (map fst m)"
    using Cons.prems e by (intro map_cong) (auto simp: bucket_Cons)
  then show ?case using Cons e by (simp add: bucket_Cons)
qed

lemma fold_count:
  "fold (\<lambda>l count. count + length (f l)) ks a = a + sum_list (map (\<lambda>l. length (f l)) ks)"
proof (induction ks arbitrary: a)
  case Nil
  show ?case by simp
next
  case (Cons k ks)
  have "fold (\<lambda>l count. count + length (f l)) (k # ks) a
      = fold (\<lambda>l count. count + length (f l)) ks (a + length (f k))"
    by simp
  also have "\<dots> = (a + length (f k)) + sum_list (map (\<lambda>l. length (f l)) ks)"
    by (rule Cons.IH)
  also have "\<dots> = a + sum_list (map (\<lambda>l. length (f l)) (k # ks))"
    by (simp only: list.map sum_list.Cons add.assoc)
  finally show ?case .
qed

lemma count_entries:
  assumes "distinct (map fst m)"
  shows "fold (\<lambda>l count. count + length (bucket m l)) (map fst m) 0 = length (concat (map snd m))"
proof -
  have "map (\<lambda>l. length (bucket m l)) (map fst m)
      = map length (map (\<lambda>k. bucket m k) (map fst m))"
    by (simp only: map_map comp_def)
  also have "\<dots> = map length (map snd m)"
    by (simp only: bucket_entries [OF assms])
  finally have "sum_list (map (\<lambda>l. length (bucket m l)) (map fst m))
      = length (concat (map snd m))"
    by (simp only: length_concat)
  then show ?thesis
    by (simp only: fold_count add_0)
qed

lemma mset_entries:
  assumes "distinct (map fst m)"
  shows "(\<Sum>k \<in># mset (map fst m). mset (bucket m k)) = mset (concat (map snd m))"
proof -
  have "(\<Sum>k \<in># mset (map fst m). mset (bucket m k))
      = sum_list (map mset (map (\<lambda>k. bucket m k) (map fst m)))"
    by (simp add: sum_mset_sum_list comp_def flip: mset_map)
  also have "\<dots> = sum_list (map mset (map snd m))"
    unfolding bucket_entries [OF assms] ..
  also have "\<dots> = mset (concat (map snd m))"
    by (simp add: mset_concat comp_def)
  finally show ?thesis .
qed

lemma concat_update_append:
  "mset (concat (map snd (AList.update k (bucket m k @ [x]) m)))
     = add_mset x (mset (concat (map snd m)))"
proof (induction m)
  case Nil
  then show ?case by (simp add: bucket_def)
next
  case (Cons e m)
  then show ?case by (cases e) (auto simp: bucket_Cons)
qed

lemma update_bucket_if:
  "AList.update k (bucket (if map_of m k = None then AList.update k [] m else m) k @ [x])
       (if map_of m k = None then AList.update k [] m else m)
     = AList.update k (bucket m k @ [x]) m"
  by (simp add: bucket_def update_conv')

lemma AddNode_Inr:
  assumes "AddNode s node = Inr s'"
  shows "\<exists>key. s' = s\<lparr>nodes := AList.update key (bucket (nodes s) key @ [node]) (nodes s)\<rparr>"
proof -
  obtain l p e where m: "MatchProps node (matchProvider s) = (l, p, e)"
    by (cases "MatchProps node (matchProvider s)") auto
  show ?thesis
  proof (cases e)
    case None
    let ?k = "createNodeSortKey l (sorted_list_of_fset (Labels node))"
    have "s' = s\<lparr>nodes := AList.update ?k (bucket (nodes s) ?k @ [node]) (nodes s)\<rparr>"
      using assms m None unfolding AddNode_def Let_def update_bucket_if by simp
    then show ?thesis by blast
  next
    case (Some err)
    then show ?thesis using assms m by (simp add: AddNode_def)
  qed
qed

lemma AddNode_conserves:
  assumes "AddNode s node = Inr s'" and "distinct (map fst (nodes s))"
  shows "distinct (map fst (nodes s'))"
    and "mset (concat (map snd (nodes s'))) = add_mset node (mset (concat (map snd (nodes s))))"
    and "rels s' = rels s" and "matchProvider s' = matchProvider s"
proof -
  from AddNode_Inr [OF assms(1)] obtain key
    where s': "s' = s\<lparr>nodes := AList.update key (bucket (nodes s) key @ [node]) (nodes s)\<rparr>" ..
  show "distinct (map fst (nodes s'))"
    unfolding s' using assms(2) by (simp add: distinct_update)
  show "mset (concat (map snd (nodes s'))) = add_mset node (mset (concat (map snd (nodes s))))"
    unfolding s' by (simp add: concat_update_append)
  show "rels s' = rels s" "matchProvider s' = matchProvider s"
    unfolding s' by simp_all
qed

lemma AddNodes_conserves:
  assumes "AddNodes s ns = Inr s'" and "distinct (map fst (nodes s))"
  shows "distinct (map fst (nodes s'))
    \<and> mset (concat (map snd (nodes s'))) = mset (concat (map snd (nodes s))) + mset ns
    \<and> rels s' = rels s \<and> matchProvider s' = matchProvider s"
  using assms
proof (induction ns arbitrary: s)
  case Nil
  then show ?case by simp
next
  case (Cons n ns)
  from Cons.prems(1) obtain s1 where 1: "AddNode s n = Inr s1" and 2: "AddNodes s1 ns = Inr s'"
    by (auto split: sum.splits)
  note c = AddNode_conserves [OF 1 Cons.prems(2)]
  from Cons.IH [OF 2 c(1)] show ?case using c by simp
qed

lemma NodeCount_flat:
  "distinct (map fst (nodes s)) \<Longrightarrow> NodeCount s = size (mset (concat (map snd (nodes s))))"
  unfolding NodeCount_def by (simp add: count_entries)

lemma Labels_schema_nodes:
  "Labels (NewUserNode p) = {|''User''|}"
  "Labels (NewEventNode p) = {|''Event''|}"
  "Labels (NewTagNode a b c) = {|''Tag''|}"
  by (simp_all add: NewUserNode_def NewEventNode_def NewTagNode_def NewNode_def NewSet_def Add_def)

lemma MatchProps_schema_nodes:
  "fst (MatchProps (NewUserNode p) NewMatchKeys) = ''User''"
  "snd (snd (MatchProps (NewUserNode p) NewMatchKeys)) = None"
  "fst (MatchProps (NewEventNode p) NewMatchKeys) = ''Event''"
  "snd (snd (MatchProps (NewEventNode p) NewMatchKeys)) = None"
  "fst (MatchProps (NewTagNode a b c) NewMatchKeys) = ''Tag''"
  "snd (snd (MatchProps (NewTagNode a b c) NewMatchKeys)) = None"
  by (simp_all add: MatchProps_def Labels_schema_nodes sorted_list_of_fset.rep_eq
      GetKeys_def NewMatchKeys_def NewUserNode_def NewEventNode_def NewTagNode_def NewNode_def
      NewSet_def Add_def prop_get_def)

lemma AddNode_schema_nodes:
  "matchProvider s = NewMatchKeys \<Longrightarrow> AddNode s (NewUserNode p) =
     Inr (s\<lparr>nodes := AList.update ''User:User''
                 (bucket (nodes s) ''User:User'' @ [NewUserNode p]) (nodes s)\<rparr>)"
  "matchProvider s = NewMatchKeys \<Longrightarrow> AddNode s (NewEventNode p) =
     Inr (s\<lparr>nodes := AList.update ''Event:Event''
                 (bucket (nodes s) ''Event:Event'' @ [NewEventNode p]) (nodes s)\<rparr>)"
  "matchProvider s = NewMatchKeys \<Longrightarrow> AddNode s (NewTagNode a b c) =
     Inr (s\<lparr>nodes := AList.update ''Tag:Tag''
                 (bucket (nodes s) ''Tag:Tag'' @ [NewTagNode a b c]) (nodes s)\<rparr>)"
proof -
  have *: "AddNode s n = Inr (s\<lparr>nodes := AList.update (l @ '':'' @ l)
                 (bucket (nodes s) (l @ '':'' @ l) @ [n]) (nodes s)\<rparr>)"
    if h1: "fst (MatchProps n (matchProvider s)) = l"
      and h2: "snd (snd (MatchProps n (matchProvider s))) = None"
      and h3: "Labels n = {|l|}" for n :: "val Node" and l
  proof -
    obtain p where "MatchProps n (matchProvider s) = (l, p, None)"
      using h1 h2 by (cases "MatchProps n (matchProvider s)") auto
    moreover have "createNodeSortKey l (sorted_list_of_fset (Labels n)) = l @ '':'' @ l"
      by (simp add: h3 createNodeSortKey_def sorted_list_of_fset.rep_eq)
    ultimately show ?thesis
      unfolding AddNode_def Let_def update_bucket_if by simp
  qed
  show "matchProvider s = NewMatchKeys \<Longrightarrow> AddNode s (NewUserNode p) =
     Inr (s\<lparr>nodes := AList.update ''User:User''
                 (bucket (nodes s) ''User:User'' @ [NewUserNode p]) (nodes s)\<rparr>)"
    using * [of "NewUserNode p" "''User''"]
    by (simp add: MatchProps_schema_nodes Labels_schema_nodes)
  show "matchProvider s = NewMatchKeys \<Longrightarrow> AddNode s (NewEventNode p) =
     Inr (s\<lparr>nodes := AList.update ''Event:Event''
                 (bucket (nodes s) ''Event:Event'' @ [NewEventNode p]) (nodes s)\<rparr>)"
    using * [of "NewEventNode p" "''Event''"]
    by (simp add: MatchProps_schema_nodes Labels_schema_nodes)
  show "matchProvider s = NewMatchKeys \<Longrightarrow> AddNode s (NewTagNode a b c) =
     Inr (s\<lparr>nodes := AList.update ''Tag:Tag''
                 (bucket (nodes s) ''Tag:Tag'' @ [NewTagNode a b c]) (nodes s)\<rparr>)"
    using * [of "NewTagNode a b c" "''Tag''"]
    by (simp add: MatchProps_schema_nodes Labels_schema_nodes)
qed

text \<open>
  \<^bold>\<open>C2\<close> (grouping conservation). After any sequence of \<open>AddNode\<close> calls on a fresh
  structured subgraph that all succeed, \<open>NodeCount\<close> is the number of calls, and the
  multiset union of \<open>GetNodes k\<close> over the keys \<open>k\<close> of \<open>NodeKeys\<close> is the multiset of the
  nodes passed: no node is dropped and none is duplicated across buckets. \<open>NodeKeys\<close> lists
  every key once.
\<close>

theorem grouping_conservation:
  "AddNodes (NewStructuredSubgraph mp) ns = Inr s \<Longrightarrow>
     NodeCount s = length ns
     \<and> (\<Sum>k \<in># mset (NodeKeys s). mset (GetNodes s k)) = mset ns
     \<and> distinct (NodeKeys s)"
proof -
  assume a: "AddNodes (NewStructuredSubgraph mp) ns = Inr s"
  have d0: "distinct (map fst (nodes (NewStructuredSubgraph mp :: 'a StructuredSubgraph)))"
    by (simp add: NewStructuredSubgraph_def)
  from AddNodes_conserves [OF a d0]
  have d: "distinct (map fst (nodes s))" and m: "mset (concat (map snd (nodes s))) = mset ns"
    by (simp_all add: NewStructuredSubgraph_def)
  have "NodeCount s = length ns"
    using NodeCount_flat [OF d] m by simp
  moreover have "(\<Sum>k \<in># mset (NodeKeys s). mset (GetNodes s k)) = mset ns"
    unfolding NodeKeys_def GetNodes_def mset_entries [OF d] m ..
  ultimately show ?thesis using d by (simp add: NodeKeys_def)
qed

theorem grouping_conservation_witness:
  "AddNodes (NewStructuredSubgraph NewMatchKeys)
       [NewUserNode ''pk1'', NewEventNode ''ev1'', NewUserNode ''pk2'']
     = Inr \<lparr>nodes = [(''User:User'', [NewUserNode ''pk1'', NewUserNode ''pk2'']),
                      (''Event:Event'', [NewEventNode ''ev1''])],
            rels = [], matchProvider = NewMatchKeys\<rparr>
   \<and> NodeCount \<lparr>nodes = [(''User:User'', [NewUserNode ''pk1'', NewUserNode ''pk2'']),
                      (''Event:Event'', [NewEventNode ''ev1''])],
            rels = [], matchProvider = NewMatchKeys\<rparr> = 3
   \<and> mset (GetNodes \<lparr>nodes = [(''User:User'', [NewUserNode ''pk1'', NewUserNode ''pk2'']),
                      (''Event:Event'', [NewEventNode ''ev1''])],
            rels = [], matchProvider = NewMatchKeys\<rparr> ''User:User'')
     + mset (GetNodes \<lparr>nodes = [(''User:User'', [NewUserNode ''pk1'', NewUserNode ''pk2'']),
                      (''Event:Event'', [NewEventNode ''ev1''])],
            rels = [], matchProvider = NewMatchKeys\<rparr> ''Event:Event'')
     = mset [NewUserNode ''pk1'', NewEventNode ''ev1'', NewUserNode ''pk2'']"
proof -
  let ?s = "\<lparr>nodes = [(''User:User'', [NewUserNode ''pk1'', NewUserNode ''pk2'']),
                      (''Event:Event'', [NewEventNode ''ev1''])],
            rels = [], matchProvider = NewMatchKeys\<rparr>"
  let ?ns = "[NewUserNode ''pk1'', NewEventNode ''ev1'', NewUserNode ''pk2'']"
  have run: "AddNodes (NewStructuredSubgraph NewMatchKeys) ?ns = Inr ?s"
    by (simp add: AddNode_schema_nodes NewStructuredSubgraph_def bucket_def)
  have keys: "NodeKeys ?s = [''User:User'', ''Event:Event'']"
    by (simp add: NodeKeys_def)
  from grouping_conservation [OF run]
  have "NodeCount ?s = length ?ns"
    and "(\<Sum>k \<in># mset (NodeKeys ?s). mset (GetNodes ?s k)) = mset ?ns"
    by blast+
  then show ?thesis using run unfolding keys by (simp add: add.commute)
qed

section \<open>The merge stage\<close>

lemma AddRel_nodes:
  assumes "AddRel s rel = Inr s'"
  shows "nodes s' = nodes s \<and> matchProvider s' = matchProvider s"
proof -
  obtain l1 p1 e1 where m1: "MatchProps (Start rel) (matchProvider s) = (l1, p1, e1)"
    by (cases "MatchProps (Start rel) (matchProvider s)") auto
  obtain l2 p2 e2 where m2: "MatchProps (End rel) (matchProvider s) = (l2, p2, e2)"
    by (cases "MatchProps (End rel) (matchProvider s)") auto
  show ?thesis
    using assms unfolding AddRel_def m1 m2 Let_def
    by (cases e1; cases e2) auto
qed

lemma AddRels_nodes:
  "AddRels s rs = Inr s' \<Longrightarrow> nodes s' = nodes s \<and> matchProvider s' = matchProvider s"
proof (induction rs arbitrary: s)
  case Nil
  then show ?case by simp
next
  case (Cons r rs)
  from Cons.prems obtain s1 where 1: "AddRel s r = Inr s1" and 2: "AddRels s1 rs = Inr s'"
    by (auto split: sum.splits)
  show ?case using AddRel_nodes [OF 1] Cons.IH [OF 2] by simp
qed

lemma NodeCount_cong: "nodes s' = nodes s \<Longrightarrow> NodeCount s' = NodeCount s"
  by (simp add: NodeCount_def)

lemma NodeCount_AddNodes:
  assumes "AddNodes s ns = Inr s'" and "distinct (NodeKeys s)"
  shows "NodeCount s' = NodeCount s + length ns" and "distinct (NodeKeys s')"
proof -
  have d: "distinct (map fst (nodes s))" using assms(2) by (simp add: NodeKeys_def)
  note c = AddNodes_conserves [OF assms(1) d]
  from c have d': "distinct (map fst (nodes s'))" by blast
  then show "distinct (NodeKeys s')" by (simp add: NodeKeys_def)
  have "size (mset (concat (map snd (nodes s'))))
      = size (mset (concat (map snd (nodes s))) + mset ns)"
    using c by simp
  then show "NodeCount s' = NodeCount s + length ns"
    unfolding NodeCount_flat [OF d] NodeCount_flat [OF d'] by simp
qed

lemma NodeCount_New: "NodeCount (NewStructuredSubgraph mp) = 0"
  by (simp add: NodeCount_def NewStructuredSubgraph_def)

lemma NodeKeys_New: "NodeKeys (NewStructuredSubgraph mp) = []"
  by (simp add: NodeKeys_def NewStructuredSubgraph_def)

lemma AddRel_schema:
  assumes "matchProvider s = NewMatchKeys"
    and "fst (MatchProps (Start rel) NewMatchKeys) = l1"
    and "snd (snd (MatchProps (Start rel) NewMatchKeys)) = None"
    and "fst (MatchProps (End rel) NewMatchKeys) = l2"
    and "snd (snd (MatchProps (End rel) NewMatchKeys)) = None"
  shows "AddRel s rel =
     Inr (s\<lparr>rels := AList.update (createRelSortKey (Type rel) l1 l2)
                 (bucket (rels s) (createRelSortKey (Type rel) l1 l2) @ [rel]) (rels s)\<rparr>)"
  using assms unfolding AddRel_def Let_def update_bucket_if
  by (simp add: split_beta split: option.splits)

lemma mergeSubgraph_New: "mergeSubgraph db (NewStructuredSubgraph mp) = Inr []"
  by (simp add: mergeSubgraph_def NodeKeys_def RelKeys_def NewStructuredSubgraph_def)

lemma merge_step_flush:
  assumes "AddNodes acc (sg_nodes sg) = Inr s1" and "AddRels s1 (sg_rels sg) = Inr s2"
    and "T < NodeCount s2" and "mergeSubgraph db s2 = Inr ops"
  shows "merge_step db T mp acc sg = Inr (NewStructuredSubgraph mp, [(s2, ops)])"
  using assms by (simp add: merge_step_def)

lemma MergeEntities_with_single:
  assumes "merge_step db T mp (NewStructuredSubgraph mp) sg = Inr (acc, fs)"
    and "mergeSubgraph db acc = Inr ops"
  shows "MergeEntities_with db T mp [sg] = Inr (fs @ [(acc, ops)])"
  using assms by (simp add: MergeEntities_with_def)

text \<open>
  One pass of the loop with threshold 1 on the subgraph of one event with one tag (a user,
  an event and a tag node, a \<open>SIGNED\<close> and a \<open>TAGGED\<close> relationship), against a store that
  accepts every operation.
\<close>

lemma one_event_step:
  "\<exists>ops. merge_step (\<lambda>op. None) 1 NewMatchKeys (NewStructuredSubgraph NewMatchKeys)
        \<lparr>sg_nodes = [NewUserNode ''pk1'', NewEventNode ''ev1'', NewTagNode ''e'' ''ev0'' []],
          sg_rels = [NewRelationship ''SIGNED'' (NewUserNode ''pk1'') (NewEventNode ''ev1'') None,
                     NewRelationship ''TAGGED'' (NewEventNode ''ev1'')
                       (NewTagNode ''e'' ''ev0'' []) None]\<rparr>
      = Inr (NewStructuredSubgraph NewMatchKeys,
             [(\<lparr>nodes = [(''User:User'', [NewUserNode ''pk1'']),
                        (''Event:Event'', [NewEventNode ''ev1'']),
                        (''Tag:Tag'', [NewTagNode ''e'' ''ev0'' []])],
                rels = [(''SIGNED,User,Event'',
                          [NewRelationship ''SIGNED'' (NewUserNode ''pk1'')
                             (NewEventNode ''ev1'') None]),
                        (''TAGGED,Event,Tag'',
                          [NewRelationship ''TAGGED'' (NewEventNode ''ev1'')
                             (NewTagNode ''e'' ''ev0'' []) None])],
                matchProvider = NewMatchKeys\<rparr>, ops :: val store_op list)])"
proof -
  let ?u = "NewUserNode ''pk1''" and ?e = "NewEventNode ''ev1''"
    and ?t = "NewTagNode ''e'' ''ev0'' []"
  let ?signed = "NewRelationship ''SIGNED'' ?u ?e None"
  let ?tagged = "NewRelationship ''TAGGED'' ?e ?t None"
  let ?db = "\<lambda>op :: val store_op. None :: error option"
  let ?ns = "[(''User:User'', [?u]), (''Event:Event'', [?e]), (''Tag:Tag'', [?t])]"
  let ?s1 = "\<lparr>nodes = ?ns, rels = [], matchProvider = NewMatchKeys\<rparr>"
  let ?s1' = "\<lparr>nodes = ?ns, rels = [(''SIGNED,User,Event'', [?signed])],
               matchProvider = NewMatchKeys\<rparr>"
  let ?s2 = "\<lparr>nodes = ?ns,
              rels = [(''SIGNED,User,Event'', [?signed]), (''TAGGED,Event,Tag'', [?tagged])],
              matchProvider = NewMatchKeys\<rparr>"
  let ?sg = "\<lparr>sg_nodes = [?u, ?e, ?t], sg_rels = [?signed, ?tagged]\<rparr>"
  have 1: "AddNodes (NewStructuredSubgraph NewMatchKeys) [?u, ?e, ?t] = Inr ?s1"
    by (simp add: AddNode_schema_nodes NewStructuredSubgraph_def bucket_def)
  have r1: "AddRel ?s1 ?signed = Inr ?s1'"
    using AddRel_schema [of ?s1 ?signed "''User''" "''Event''"]
    by (simp add: MatchProps_schema_nodes NewRelationship_def createRelSortKey_def bucket_def)
  have r2: "AddRel ?s1' ?tagged = Inr ?s2"
    using AddRel_schema [of ?s1' ?tagged "''Event''" "''Tag''"]
    by (simp add: MatchProps_schema_nodes NewRelationship_def createRelSortKey_def bucket_def)
  have 2: "AddRels ?s1 [?signed, ?tagged] = Inr ?s2"
    by (simp add: r1 r2)
  have 3: "NodeCount ?s2 = 3"
    by (simp add: NodeCount_def bucket_def)
  have "\<not> isl (mergeSubgraph ?db ?s2)"
    by (simp add: mergeSubgraph_def NodeKeys_def RelKeys_def DeserializeNodeKey_def
        DeserializeRelKey_def mergeNodes_def mergeRels_def GetKeys_def NewMatchKeys_def Let_def)
  then obtain ops where 4: "mergeSubgraph ?db ?s2 = Inr ops"
    by (cases "mergeSubgraph ?db ?s2") auto
  have "merge_step ?db 1 NewMatchKeys (NewStructuredSubgraph NewMatchKeys) ?sg
      = Inr (NewStructuredSubgraph NewMatchKeys, [(?s2, ops)])"
  proof (rule merge_step_flush)
    show "AddNodes (NewStructuredSubgraph NewMatchKeys) (sg_nodes ?sg) = Inr ?s1"
      using 1 by simp
    show "AddRels ?s1 (sg_rels ?sg) = Inr ?s2" using 2 by simp
    show "1 < NodeCount ?s2" using 3 by simp
    show "mergeSubgraph ?db ?s2 = Inr ops" by (rule 4)
  qed
  then show ?thesis by blast
qed

lemma one_event_count:
  "NodeCount \<lparr>nodes = [(''User:User'', [NewUserNode ''pk1'']),
                        (''Event:Event'', [NewEventNode ''ev1'']),
                        (''Tag:Tag'', [NewTagNode ''e'' ''ev0'' []])],
                rels = rs, matchProvider = mp\<rparr> = 3"
  by (simp add: NodeCount_def bucket_def)

text \<open>
  \<^bold>\<open>C5\<close>, as stated, fails. With threshold \<open>T = 1\<close> the run on that subgraph makes two
  flushes, the first of an accumulator that holds three nodes and the final one of an
  empty accumulator: the third node, number \<open>T + 2\<close>, was added before the first flush.
\<close>

theorem flush_before_next_node_counterexample:
  "map_sum id (map (\<lambda>f. NodeCount (fst f)))
     (MergeEntities_with (\<lambda>op. None) 1 NewMatchKeys
        [\<lparr>sg_nodes = [NewUserNode ''pk1'', NewEventNode ''ev1'', NewTagNode ''e'' ''ev0'' []],
          sg_rels = [NewRelationship ''SIGNED'' (NewUserNode ''pk1'') (NewEventNode ''ev1'') None,
                     NewRelationship ''TAGGED'' (NewEventNode ''ev1'')
                       (NewTagNode ''e'' ''ev0'' []) None]\<rparr>])
   = Inr [3, 0]"
proof -
  from one_event_step obtain ops :: "val store_op list" where
    step: "merge_step (\<lambda>op. None) 1 NewMatchKeys (NewStructuredSubgraph NewMatchKeys)
        \<lparr>sg_nodes = [NewUserNode ''pk1'', NewEventNode ''ev1'', NewTagNode ''e'' ''ev0'' []],
          sg_rels = [NewRelationship ''SIGNED'' (NewUserNode ''pk1'') (NewEventNode ''ev1'') None,
                     NewRelationship ''TAGGED'' (NewEventNode ''ev1'')
                       (NewTagNode ''e'' ''ev0'' []) None]\<rparr>
      = Inr (NewStructuredSubgraph NewMatchKeys,
             [(\<lparr>nodes = [(''User:User'', [NewUserNode ''pk1'']),
                        (''Event:Event'', [NewEventNode ''ev1'']),
                        (''Tag:Tag'', [NewTagNode ''e'' ''ev0'' []])],
                rels = [(''SIGNED,User,Event'',
                          [NewRelationship ''SIGNED'' (NewUserNode ''pk1'')
                             (NewEventNode ''ev1'') None]),
                        (''TAGGED,Event,Tag'',
                          [NewRelationship ''TAGGED'' (NewEventNode ''ev1'')
                             (NewTagNode ''e'' ''ev0'' []) None])],
                matchProvider = NewMatchKeys\<rparr>, ops)])"
    by blast
  show ?thesis
    unfolding MergeEntities_with_single [OF step mergeSubgraph_New]
    by (simp add: one_event_count NodeCount_New)
qed

text \<open>
  \<^bold>\<open>C5\<close>, amended (flush threshold, checked once per subgraph). One pass of the merge loop
  that does not panic adds all nodes and then all relationships of the subgraph it
  received to the accumulator, which then holds as many nodes more as the subgraph has.
  If this count exceeds the threshold \<open>T\<close>, the pass makes exactly one flush, of that
  accumulator, and the next pass starts from an empty accumulator; otherwise it makes no
  flush and the next pass starts from the accumulator as it is. So the accumulator a
  pass starts from never holds more than \<open>T\<close> nodes, and a node beyond number \<open>T + 1\<close> is
  added before the flush exactly when it belongs to the subgraph that crossed the
  threshold.
\<close>

theorem flush_after_each_subgraph:
  assumes "merge_step db T mp acc sg = Inr (acc', fs)" and "distinct (NodeKeys acc)"
  shows "\<exists>s1 s. AddNodes acc (sg_nodes sg) = Inr s1 \<and> AddRels s1 (sg_rels sg) = Inr s
           \<and> NodeCount s = NodeCount acc + length (sg_nodes sg)
           \<and> (if T < NodeCount s
                then (\<exists>ops. mergeSubgraph db s = Inr ops \<and> fs = [(s, ops)])
                     \<and> acc' = NewStructuredSubgraph mp
                else fs = [] \<and> acc' = s)
           \<and> NodeCount acc' \<le> T \<and> distinct (NodeKeys acc')"
proof -
  from assms(1) obtain s1 where 1: "AddNodes acc (sg_nodes sg) = Inr s1"
    unfolding merge_step_def by (cases "AddNodes acc (sg_nodes sg)") auto
  from assms(1) 1 obtain s where 2: "AddRels s1 (sg_rels sg) = Inr s"
    unfolding merge_step_def by (cases "AddRels s1 (sg_rels sg)") auto
  have n1: "NodeCount s1 = NodeCount acc + length (sg_nodes sg)" and d1: "distinct (NodeKeys s1)"
    using NodeCount_AddNodes [OF 1 assms(2)] by blast+
  have same: "nodes s = nodes s1" using AddRels_nodes [OF 2] by blast
  then have n: "NodeCount s = NodeCount acc + length (sg_nodes sg)"
    using n1 NodeCount_cong [OF same] by simp
  have d: "distinct (NodeKeys s)" using d1 same by (simp add: NodeKeys_def)
  show ?thesis
  proof (cases "T < NodeCount s")
    case True
    with assms(1) 1 2 obtain ops where f: "mergeSubgraph db s = Inr ops"
      unfolding merge_step_def by (cases "mergeSubgraph db s") auto
    with assms(1) 1 2 True have "acc' = NewStructuredSubgraph mp" and "fs = [(s, ops)]"
      unfolding merge_step_def by auto
    then show ?thesis using 1 2 n True f
      by (auto simp: NodeCount_New NodeKeys_New)
  next
    case False
    with assms(1) 1 2 have "acc' = s" and "fs = []"
      unfolding merge_step_def by auto
    then show ?thesis using 1 2 n False d by auto
  qed
qed

theorem flush_after_each_subgraph_witness:
  "map_sum id (\<lambda>r. (fst r, map fst (snd r)))
     (merge_step (\<lambda>op. None) 1 NewMatchKeys (NewStructuredSubgraph NewMatchKeys)
        \<lparr>sg_nodes = [NewUserNode ''pk1'', NewEventNode ''ev1'', NewTagNode ''e'' ''ev0'' []],
          sg_rels = [NewRelationship ''SIGNED'' (NewUserNode ''pk1'') (NewEventNode ''ev1'') None,
                     NewRelationship ''TAGGED'' (NewEventNode ''ev1'')
                       (NewTagNode ''e'' ''ev0'' []) None]\<rparr>)
     = Inr (NewStructuredSubgraph NewMatchKeys,
            [\<lparr>nodes = [(''User:User'', [NewUserNode ''pk1'']),
                        (''Event:Event'', [NewEventNode ''ev1'']),
                        (''Tag:Tag'', [NewTagNode ''e'' ''ev0'' []])],
                rels = [(''SIGNED,User,Event'',
                          [NewRelationship ''SIGNED'' (NewUserNode ''pk1'')
                             (NewEventNode ''ev1'') None]),
                        (''TAGGED,Event,Tag'',
                          [NewRelationship ''TAGGED'' (NewEventNode ''ev1'')
                             (NewTagNode ''e'' ''ev0'' []) None])],
                matchProvider = NewMatchKeys\<rparr>])
   \<and> NodeCount \<lparr>nodes = [(''User:User'', [NewUserNode ''pk1'']),
                        (''Event:Event'', [NewEventNode ''ev1'']),
                        (''Tag:Tag'', [NewTagNode ''e'' ''ev0'' []])],
                rels = [(''SIGNED,User,Event'',
                          [NewRelationship ''SIGNED'' (NewUserNode ''pk1'')
                             (NewEventNode ''ev1'') None]),
                        (''TAGGED,Event,Tag'',
                          [NewRelationship ''TAGGED'' (NewEventNode ''ev1'')
                             (NewTagNode ''e'' ''ev0'' []) None])],
                matchProvider = NewMatchKeys\<rparr>
       = NodeCount (NewStructuredSubgraph NewMatchKeys :: val StructuredSubgraph) + 3
   \<and> NodeCount (NewStructuredSubgraph NewMatchKeys :: val StructuredSubgraph) \<le> 1"
proof -
  let ?sg = "\<lparr>sg_nodes = [NewUserNode ''pk1'', NewEventNode ''ev1'', NewTagNode ''e'' ''ev0'' []],
          sg_rels = [NewRelationship ''SIGNED'' (NewUserNode ''pk1'') (NewEventNode ''ev1'') None,
                     NewRelationship ''TAGGED'' (NewEventNode ''ev1'')
                       (NewTagNode ''e'' ''ev0'' []) None]\<rparr>"
  let ?s2 = "\<lparr>nodes = [(''User:User'', [NewUserNode ''pk1'']),
                        (''Event:Event'', [NewEventNode ''ev1'']),
                        (''Tag:Tag'', [NewTagNode ''e'' ''ev0'' []])],
                rels = [(''SIGNED,User,Event'',
                          [NewRelationship ''SIGNED'' (NewUserNode ''pk1'')
                             (NewEventNode ''ev1'') None]),
                        (''TAGGED,Event,Tag'',
                          [NewRelationship ''TAGGED'' (NewEventNode ''ev1'')
                             (NewTagNode ''e'' ''ev0'' []) None])],
                matchProvider = NewMatchKeys\<rparr>"
  let ?new = "NewStructuredSubgraph NewMatchKeys :: val StructuredSubgraph"
  from one_event_step obtain ops :: "val store_op list" where
    step: "merge_step (\<lambda>op. None) 1 NewMatchKeys ?new ?sg = Inr (?new, [(?s2, ops)])"
    by blast
  have d: "distinct (NodeKeys ?new)" by (simp add: NodeKeys_New)
  from flush_after_each_subgraph [OF step d]
  obtain s where n: "NodeCount s = NodeCount ?new + length (sg_nodes ?sg)"
    and c: "if 1 < NodeCount s
            then (\<exists>ops'. mergeSubgraph (\<lambda>op. None) s = Inr ops' \<and> [(?s2, ops)] = [(s, ops')])
                 \<and> ?new = NewStructuredSubgraph NewMatchKeys
            else [(?s2, ops)] = [] \<and> ?new = s"
    and le: "NodeCount ?new \<le> 1"
    by blast
  have "s = ?s2"
  proof (cases "1 < NodeCount s")
    case True
    with c show ?thesis by auto
  next
    case False
    with c show ?thesis by simp
  qed
  then have "NodeCount ?s2 = NodeCount ?new + 3" using n by simp
  then show ?thesis using le unfolding step by simp
qed

section \<open>The source stage\<close>

lemma sent_simps:
  "sent [] = []"
  "sent (Send e # xs) = e # sent xs"
  "sent (LogInvalid e # xs) = sent xs"
  "sent (xs @ ys) = sent xs @ sent ys"
  by (simp_all add: sent_def)

lemma import_lines_beyond_cap: "i > 10000 \<Longrightarrow> import_lines T U i lines = []"
  by (cases lines) simp_all

lemma import_lines_step:
  assumes "i \<le> 10000"
  shows "import_lines T U i (line # rest) =
     (if T line = [] then []
      else (if snd (U (T line)) \<noteq> None then [LogInvalid (fst (U (T line)))] else [])
           @ [Send (fst (U (T line)))])
     @ import_lines T U (Suc i) rest"
  using assms by (simp add: Let_def split: prod.splits)

lemma sent_import_lines:
  "sent (import_lines T U i lines) =
     map (\<lambda>l. fst (U (T l))) (filter (\<lambda>l. T l \<noteq> []) (take (10001 - i) lines))"
proof (induction lines arbitrary: i)
  case Nil
  show ?case by (simp add: sent_simps)
next
  case (Cons line rest)
  show ?case
  proof (cases "i \<le> 10000")
    case False
    then show ?thesis by (simp add: import_lines_beyond_cap sent_simps)
  next
    case True
    then have "10001 - i = Suc (10001 - Suc i)" by arith
    then have t: "take (10001 - i) (line # rest) = line # take (10001 - Suc i) rest"
      by (simp only: take_Suc_Cons)
    show ?thesis
      unfolding import_lines_step [OF True] t sent_simps Cons.IH
      by (simp add: sent_simps)
  qed
qed

lemma logged_import_lines:
  assumes "i + k \<le> 10000" and "k < length lines" and "T (lines ! k) \<noteq> []"
    and "snd (U (T (lines ! k))) \<noteq> None"
  shows "LogInvalid (fst (U (T (lines ! k)))) \<in> set (import_lines T U i lines)"
  using assms
proof (induction lines arbitrary: i k)
  case Nil
  then show ?case by simp
next
  case (Cons line rest)
  have i: "i \<le> 10000" using Cons.prems(1) by simp
  show ?case
  proof (cases k)
    case 0
    then show ?thesis using Cons.prems unfolding import_lines_step [OF i] by simp
  next
    case (Suc k')
    have "LogInvalid (fst (U (T (rest ! k')))) \<in> set (import_lines T U (Suc i) rest)"
      using Cons.prems Suc by (intro Cons.IH) auto
    then show ?thesis unfolding import_lines_step [OF i] using Suc by simp
  qed
qed

text \<open>
  \<^bold>\<open>C4\<close> (decode failures), what the code does. A line within the cap that is not blank and
  that \<open>Unmarshal\<close> rejects is written to the log and then sent on the channel all the
  same: the loop has no \<open>continue\<close> after the log line. The events sent are those of all
  non-blank lines within the cap, whether they decoded or not. The run does go on after
  the failure; the record is not skipped.
\<close>

theorem undecodable_line_is_forwarded:
  assumes "k < length (Split data CHR 0x0A)" and "k \<le> 10000"
    and "TrimSpace (Split data CHR 0x0A ! k) \<noteq> []"
    and "Unmarshal (TrimSpace (Split data CHR 0x0A ! k)) = (event, Some err)"
  shows "\<exists>effects. ImportEvents TrimSpace Unmarshal (Inr data) = Inr effects
           \<and> LogInvalid event \<in> set effects
           \<and> event \<in> set (sent effects)
           \<and> sent effects = map (\<lambda>l. fst (Unmarshal (TrimSpace l)))
                (filter (\<lambda>l. TrimSpace l \<noteq> []) (take 10001 (Split data CHR 0x0A)))"
proof -
  let ?lines = "Split data CHR 0x0A"
  let ?effects = "import_lines TrimSpace Unmarshal 0 ?lines"
  have run: "ImportEvents TrimSpace Unmarshal (Inr data) = Inr ?effects"
    by (simp add: ImportEvents_def)
  have ev: "fst (Unmarshal (TrimSpace (?lines ! k))) = event"
    and er: "snd (Unmarshal (TrimSpace (?lines ! k))) \<noteq> None"
    using assms(4) by simp_all
  have "LogInvalid (fst (Unmarshal (TrimSpace (?lines ! k)))) \<in> set ?effects"
    using assms(1,2,3) er by (intro logged_import_lines) simp_all
  then have log: "LogInvalid event \<in> set ?effects" unfolding ev .
  have s: "sent ?effects = map (\<lambda>l. fst (Unmarshal (TrimSpace l)))
                (filter (\<lambda>l. TrimSpace l \<noteq> []) (take 10001 ?lines))"
    using sent_import_lines [of TrimSpace Unmarshal 0 ?lines] by simp
  have "?lines ! k \<in> set (take 10001 ?lines)"
    using assms(1,2) by (auto simp: in_set_conv_nth intro!: exI [of _ k])
  then have "?lines ! k \<in> set (filter (\<lambda>l. TrimSpace l \<noteq> []) (take 10001 ?lines))"
    using assms(3) by simp
  then have "fst (Unmarshal (TrimSpace (?lines ! k))) \<in> set (sent ?effects)"
    unfolding s by (simp only: set_map image_eqI)
  then have "event \<in> set (sent ?effects)" unfolding ev .
  then show ?thesis using run log s by blast
qed

theorem undecodable_line_is_forwarded_witness:
  "ImportEvents (\<lambda>s. s)
       (\<lambda>s. if s = ''{}'' then (''decoded'', None) else (''zero'', Some ''syntax error''))
       (Inr (''{}'' @ [CHR 0x0A] @ ''not json'' @ [CHR 0x0A] @ ''{}''))
     = Inr [Send ''decoded'', LogInvalid ''zero'', Send ''zero'', Send ''decoded'']
   \<and> LogInvalid ''zero'' \<in> set [Send ''decoded'', LogInvalid ''zero'', Send ''zero'', Send ''decoded'']
   \<and> ''zero'' \<in> set (sent [Send ''decoded'', LogInvalid ''zero'', Send ''zero'', Send ''decoded''])"
proof -
  let ?U = "\<lambda>s. if s = ''{}'' then (''decoded'', None) else (''zero'', Some ''syntax error'')"
  let ?data = "''{}'' @ [CHR 0x0A] @ ''not json'' @ [CHR 0x0A] @ ''{}''"
  have lines: "Split ?data CHR 0x0A = [''{}'', ''not json'', ''{}'']"
    by simp
  have run: "ImportEvents (\<lambda>s. s) ?U (Inr ?data)
     = Inr [Send ''decoded'', LogInvalid ''zero'', Send ''zero'', Send ''decoded'']"
    unfolding ImportEvents_def lines by simp
  have "\<exists>effects. ImportEvents (\<lambda>s. s) ?U (Inr ?data) = Inr effects
           \<and> LogInvalid ''zero'' \<in> set effects
           \<and> ''zero'' \<in> set (sent effects)
           \<and> sent effects = map (\<lambda>l. fst (?U l))
                (filter (\<lambda>l. l \<noteq> []) (take 10001 (Split ?data CHR 0x0A)))"
    by (rule undecodable_line_is_forwarded [where k = 1 and err = "''syntax error''"])
      (simp_all only: lines, simp_all)
  then show ?thesis unfolding run by blast
qed

text \<open>
  \<^bold>\<open>C9\<close> (record cap), what the code does. The loop breaks when the zero-based line index
  exceeds 10000, so the line of index 10000 is still processed: for a file of at least
  10001 lines whose first 10001 lines are not blank, 10001 events are sent, one for each
  of these lines.
\<close>

theorem cap_is_10001_lines:
  assumes "10001 \<le> length (Split data CHR 0x0A)"
    and "\<forall>l \<in> set (take 10001 (Split data CHR 0x0A)). TrimSpace l \<noteq> []"
  shows "\<exists>effects. ImportEvents TrimSpace Unmarshal (Inr data) = Inr effects
           \<and> length (sent effects) = 10001
           \<and> sent effects = map (\<lambda>l. fst (Unmarshal (TrimSpace l)))
                (take 10001 (Split data CHR 0x0A))"
proof -
  let ?lines = "Split data CHR 0x0A"
  let ?effects = "import_lines TrimSpace Unmarshal 0 ?lines"
  have run: "ImportEvents TrimSpace Unmarshal (Inr data) = Inr ?effects"
    by (simp add: ImportEvents_def)
  have "filter (\<lambda>l. TrimSpace l \<noteq> []) (take 10001 ?lines) = take 10001 ?lines"
    using assms(2) by (simp only: filter_True)
  then have s: "sent ?effects = map (\<lambda>l. fst (Unmarshal (TrimSpace l))) (take 10001 ?lines)"
    using sent_import_lines [of TrimSpace Unmarshal 0 ?lines] by simp
  then have "length (sent ?effects) = 10001"
    using assms(1) by simp
  then show ?thesis using run s by blast
qed

theorem cap_is_10001_lines_witness:
  "ImportEvents (\<lambda>s. s) (\<lambda>s. (s, None :: unit option))
       (Inr (Join (replicate 10001 ''x'') [CHR 0x0A]))
     = Inr (import_lines (\<lambda>s. s) (\<lambda>s. (s, None :: unit option)) 0 (replicate 10001 ''x''))
   \<and> sent (import_lines (\<lambda>s. s) (\<lambda>s. (s, None :: unit option)) 0 (replicate 10001 ''x''))
     = replicate 10001 ''x''"
proof -
  let ?U = "\<lambda>s :: string. (s, None :: unit option)"
  let ?data = "Join (replicate 10001 ''x'') [CHR 0x0A]"
  have "replicate 10001 ''x'' \<noteq> []" by simp
  moreover have "\<forall>l \<in> set (replicate 10001 ''x''). CHR 0x0A \<notin> set l" by simp
  ultimately have lines: "Split ?data CHR 0x0A = replicate 10001 ''x''"
    by (rule Split_Join)
  have run: "ImportEvents (\<lambda>s. s) ?U (Inr ?data)
      = Inr (import_lines (\<lambda>s. s) ?U 0 (replicate 10001 ''x''))"
    by (simp add: ImportEvents_def lines)
  have "\<exists>effects. ImportEvents (\<lambda>s. s) ?U (Inr ?data) = Inr effects
           \<and> length (sent effects) = 10001
           \<and> sent effects = map (\<lambda>l. fst (?U l)) (take 10001 (Split ?data CHR 0x0A))"
    by (rule cap_is_10001_lines) (simp_all only: lines, simp_all)
  then have "sent (import_lines (\<lambda>s. s) ?U 0 (replicate 10001 ''x''))
      = map (\<lambda>l. fst (?U l)) (take 10001 (replicate 10001 ''x''))"
    unfolding run lines by blast
  then show ?thesis using run by simp
qed

end
